theory Spec2Isabelle
  imports Main "HOL-Library.Multiset" "HOL-Library.Char_ord" "HOL-Library.List_Lexorder"
begin

section \<open>The notification subsystem of SmartReminder\<close>

text \<open>
  A shallow embedding of the notification module (\<^verbatim>\<open>lib/notifications.ts\<close>, present in
  two variants: \<^verbatim>\<open>src/unnamed/part_000\<close> with grouped delivery and
  \<^verbatim>\<open>src/unnamed/part_001\<close> with a guarded scheduler loop).

  Modelling decisions.
  \<^item> JavaScript numbers that hold epoch milliseconds, counts and minutes are \<open>int\<close>;
    \<open>NaN\<close> and Invalid Date are outside the model: a date string is represented by the
    time value it parses to, and calendar arithmetic stays in the representable range.
  \<^item> An optional field (\<^verbatim>\<open>priority?: ...\<close>) is an \<open>option\<close>; \<open>None\<close> is \<^verbatim>\<open>undefined\<close>.
  \<^item> The IndexedDB object store \<^verbatim>\<open>scheduled-notifications\<close> (key path \<^verbatim>\<open>id\<close>) is the list
    of its records in key order, which is the order \<^verbatim>\<open>getAll()\<close> returns them in.
  \<^item> \<^verbatim>\<open>Date.now()\<close>, \<^verbatim>\<open>crypto.randomUUID()\<close> and the calendar arithmetic of \<^verbatim>\<open>Date\<close>
    are an environment; the world counts how many readings were taken, so that every
    reading can differ from the one before.
  \<^item> The asynchronous functions are run to completion one after the other; a rejected
    promise is an \<open>Inl\<close> result.
\<close>

subsection \<open>Data model\<close>

datatype priority = Low | Normal | High

datatype category = Reminder | Overdue | Deadline

datatype recurringPattern = Daily | Weekly | Monthly

record ScheduledNotification =
  id' :: string
  taskId :: string
  title :: string
  body :: string
  scheduledTime :: int
  isTriggered :: bool
  createdAt :: int
  priority :: "priority option"
  category :: "category option"
  taskDueDate :: "int option"
  isGrouped :: "bool option"
  groupId :: "string option"
  snoozeCount :: "int option"
  originalScheduledTime :: "int option"
  isRecurring :: "bool option"
  recurringPattern :: "recurringPattern option"

text \<open>The part of a task (\<^verbatim>\<open>lib/db.ts\<close>) that this module reads.\<close>

record Task =
  task_id :: string
  task_title :: string
  task_dueDate :: "int option"

text \<open>A rejected promise: what the request or the function rejected with.\<close>

datatype error =
    ConstraintError
  | NotificationNotFound

text \<open>
  One call of \<^verbatim>\<open>showNotification\<close>, as the trigger evaluator makes it: the title, the
  body, the data payload and the options. The function catches what its body throws and
  returns; what it hands to the platform is not modelled.
\<close>

datatype payload =
    SingleData string string
  | GroupData "string list" "string list"

record presentation =
  shown_title :: string
  shown_body :: string
  shown_data :: payload
  shown_priority :: "priority option"
  shown_category :: "category option"
  shown_taskDueDate :: "int option"
  shown_snoozeCount :: "int option"
  shown_isGrouped :: bool
  shown_groupCount :: "nat option"

text \<open>
  The platform: the \<open>k\<close>-th reading of the clock, the \<open>k\<close>-th generated identifier,
  \<^verbatim>\<open>d.setDate(d.getDate() + n)\<close> and \<^verbatim>\<open>d.setMonth(d.getMonth() + n)\<close> on time values.
\<close>

record env =
  dateNow :: "nat \<Rightarrow> int"
  randomUUID :: "nat \<Rightarrow> string"
  plusDays :: "int \<Rightarrow> int \<Rightarrow> int"
  plusMonths :: "int \<Rightarrow> int \<Rightarrow> int"

record world =
  db_notifications :: "ScheduledNotification list"
  db_tasks :: "Task list"
  clockReads :: nat
  uuidReads :: nat
  shown :: "presentation list"

subsection \<open>Strings\<close>

text \<open>Decimal numerals, for identifiers and for \<^verbatim>\<open>`${n}`\<close> in template strings.\<close>

fun digits :: "nat \<Rightarrow> string" where
  "digits n =
     (if n < 10 then [''0123456789'' ! n]
      else digits (n div 10) @ [''0123456789'' ! (n mod 10)])"

definition numberToString :: "int \<Rightarrow> string" where
  "numberToString i = (if i < 0 then CHR ''-'' # digits (nat (- i)) else digits (nat i))"

text \<open>\<^verbatim>\<open>s.replace(pattern, replacement)\<close> with a string pattern: the first occurrence.\<close>

fun replaceFirst :: "string \<Rightarrow> string \<Rightarrow> string \<Rightarrow> string" where
  "replaceFirst pattern replacement [] = (if pattern = [] then replacement else [])"
| "replaceFirst pattern replacement (c # cs) =
     (if take (length pattern) (c # cs) = pattern
      then replacement @ drop (length pattern) (c # cs)
      else c # replaceFirst pattern replacement cs)"

text \<open>\<^verbatim>\<open>parts.join(separator)\<close>.\<close>

fun joinWith :: "string \<Rightarrow> string list \<Rightarrow> string" where
  "joinWith separator [] = []"
| "joinWith separator [x] = x"
| "joinWith separator (x # y # ys) = x @ separator @ joinWith separator (y # ys)"

subsection \<open>The object store\<close>

definition idb_get :: "string \<Rightarrow> ScheduledNotification list \<Rightarrow> ScheduledNotification option" where
  "idb_get key rs = find (\<lambda>r. id' r = key) rs"

fun idb_insert :: "ScheduledNotification \<Rightarrow> ScheduledNotification list \<Rightarrow> ScheduledNotification list" where
  "idb_insert r [] = [r]"
| "idb_insert r (m # ms) = (if id' r < id' m then r # m # ms else m # idb_insert r ms)"

text \<open>\<^verbatim>\<open>store.add\<close> fails with a ConstraintError when the key is taken.\<close>

definition idb_add :: "ScheduledNotification \<Rightarrow> ScheduledNotification list \<Rightarrow> error + ScheduledNotification list" where
  "idb_add r rs = (if idb_get (id' r) rs = None then Inr (idb_insert r rs) else Inl ConstraintError)"

text \<open>\<^verbatim>\<open>store.put\<close> replaces what is stored under the key, or inserts.\<close>

definition idb_put :: "ScheduledNotification \<Rightarrow> ScheduledNotification list \<Rightarrow> ScheduledNotification list" where
  "idb_put r rs =
     (if idb_get (id' r) rs = None then idb_insert r rs
      else map (\<lambda>m. if id' m = id' r then r else m) rs)"

text \<open>\<^verbatim>\<open>store.delete\<close> succeeds whether or not the key is present.\<close>

definition idb_delete :: "string \<Rightarrow> ScheduledNotification list \<Rightarrow> ScheduledNotification list" where
  "idb_delete key rs = filter (\<lambda>r. id' r \<noteq> key) rs"

subsection \<open>The notification record manager\<close>

record scheduleOptions =
  opt_priority :: "priority option"
  opt_category :: "category option"
  opt_taskDueDate :: "int option"
  opt_isRecurring :: "bool option"
  opt_recurringPattern :: "recurringPattern option"

definition scheduleNotification ::
  "env \<Rightarrow> string \<Rightarrow> string \<Rightarrow> string \<Rightarrow> int \<Rightarrow> scheduleOptions \<Rightarrow> world
     \<Rightarrow> (error + ScheduledNotification) \<times> world" where
  "scheduleNotification env taskId' title' body' scheduledTime' options w =
     (let notification =
            \<lparr> id' = randomUUID env (uuidReads w),
              taskId = taskId',
              title = title',
              body = body',
              scheduledTime = scheduledTime',
              isTriggered = False,
              createdAt = dateNow env (clockReads w),
              priority = Some (case opt_priority options of None \<Rightarrow> Normal | Some p \<Rightarrow> p),
              category = Some (case opt_category options of None \<Rightarrow> Reminder | Some c \<Rightarrow> c),
              taskDueDate = opt_taskDueDate options,
              isGrouped = None,
              groupId = None,
              snoozeCount = Some 0,
              originalScheduledTime = Some scheduledTime',
              isRecurring = Some (case opt_isRecurring options of None \<Rightarrow> False | Some b \<Rightarrow> b),
              recurringPattern = opt_recurringPattern options \<rparr>;
          w1 = w\<lparr>clockReads := Suc (clockReads w), uuidReads := Suc (uuidReads w)\<rparr>
      in case idb_add notification (db_notifications w1) of
           Inl e \<Rightarrow> (Inl e, w1)
         | Inr rs \<Rightarrow> (Inr notification, w1\<lparr>db_notifications := rs\<rparr>))"

definition getScheduledNotifications :: "world \<Rightarrow> ScheduledNotification list" where
  "getScheduledNotifications w = db_notifications w"

definition markNotificationTriggered :: "string \<Rightarrow> world \<Rightarrow> (error + unit) \<times> world" where
  "markNotificationTriggered key w =
     (case idb_get key (db_notifications w) of
        Some notification \<Rightarrow>
          (Inr (), w\<lparr>db_notifications := idb_put (notification\<lparr>isTriggered := True\<rparr>) (db_notifications w)\<rparr>)
      | None \<Rightarrow> (Inl NotificationNotFound, w))"

definition deleteScheduledNotification :: "string \<Rightarrow> world \<Rightarrow> (error + unit) \<times> world" where
  "deleteScheduledNotification key w =
     (Inr (), w\<lparr>db_notifications := idb_delete key (db_notifications w)\<rparr>)"

subsection \<open>The recurrence engine\<close>

text \<open>The \<^verbatim>\<open>switch\<close> over the pattern: one day, seven days or one month later.\<close>

fun nextOccurrence :: "env \<Rightarrow> recurringPattern \<Rightarrow> int \<Rightarrow> int" where
  "nextOccurrence env Daily t = plusDays env 1 t"
| "nextOccurrence env Weekly t = plusDays env 7 t"
| "nextOccurrence env Monthly t = plusMonths env 1 t"

text \<open>\<^verbatim>\<open>notification.originalScheduledTime || notification.scheduledTime\<close>.\<close>

definition anchorTime :: "ScheduledNotification \<Rightarrow> int" where
  "anchorTime notification =
     (case originalScheduledTime notification of
        None \<Rightarrow> scheduledTime notification
      | Some t \<Rightarrow> if t = 0 then scheduledTime notification else t)"

text \<open>
  The source returns nothing; the model also hands back the record that the awaited
  \<^verbatim>\<open>scheduleNotification\<close> resolved with (\<open>None\<close> after the early return), so that a
  chain can be followed.
\<close>

definition scheduleRecurringNotification ::
  "env \<Rightarrow> ScheduledNotification \<Rightarrow> world \<Rightarrow> (error + ScheduledNotification option) \<times> world" where
  "scheduleRecurringNotification env notification w =
     (case recurringPattern notification of
        None \<Rightarrow> (Inr None, w)
      | Some pattern \<Rightarrow>
          (case scheduleNotification env (taskId notification) (title notification)
                  (body notification) (nextOccurrence env pattern (anchorTime notification))
                  \<lparr> opt_priority = priority notification,
                    opt_category = category notification,
                    opt_taskDueDate = taskDueDate notification,
                    opt_isRecurring = Some True,
                    opt_recurringPattern = Some pattern \<rparr> w of
             (Inl e, w') \<Rightarrow> (Inl e, w')
           | (Inr next, w') \<Rightarrow> (Inr (Some next), w')))"

text \<open>
  A recurrence chain: a record, and the records that \<open>n\<close> deliveries in a row create,
  each delivery calling \<open>scheduleRecurringNotification\<close> on the record before.
\<close>

fun recurrenceChain :: "env \<Rightarrow> nat \<Rightarrow> ScheduledNotification \<Rightarrow> world \<Rightarrow> ScheduledNotification list" where
  "recurrenceChain env 0 first w = [first]"
| "recurrenceChain env (Suc n) first w =
     first # (case scheduleRecurringNotification env first w of
                (Inr (Some next), w') \<Rightarrow> recurrenceChain env n next w'
              | _ \<Rightarrow> [])"

text \<open>The chain of a record that \<open>scheduleNotification\<close> creates first.\<close>

definition recurrenceChainFrom ::
  "env \<Rightarrow> nat \<Rightarrow> string \<Rightarrow> string \<Rightarrow> string \<Rightarrow> int \<Rightarrow> scheduleOptions \<Rightarrow> world
     \<Rightarrow> ScheduledNotification list" where
  "recurrenceChainFrom env n taskId' title' body' scheduledTime' options w =
     (case scheduleNotification env taskId' title' body' scheduledTime' options w of
        (Inl e, w') \<Rightarrow> []
      | (Inr first, w') \<Rightarrow> recurrenceChain env n first w')"

text \<open>A record whose anchor is its own scheduled time.\<close>

definition selfAnchored :: "ScheduledNotification \<Rightarrow> bool" where
  "selfAnchored r = (originalScheduledTime r = Some (scheduledTime r))"

text \<open>Every record of the chain carries the scheduled time of the first as its anchor.\<close>

definition anchoredAtFirst :: "ScheduledNotification list \<Rightarrow> bool" where
  "anchoredAtFirst chain =
     list_all (\<lambda>r. originalScheduledTime r = Some (scheduledTime (hd chain))) chain"

text \<open>
  \<open>b\<close> is the follow-up of \<open>a\<close>: scheduled one interval after the anchor of \<open>a\<close>, with the
  pattern of \<open>a\<close>.
\<close>

definition followsOn :: "env \<Rightarrow> ScheduledNotification \<Rightarrow> ScheduledNotification \<Rightarrow> bool" where
  "followsOn env a b =
     (case recurringPattern a of
        None \<Rightarrow> False
      | Some pattern \<Rightarrow>
          scheduledTime b = nextOccurrence env pattern (anchorTime a)
          \<and> recurringPattern b = Some pattern \<and> isRecurring b = Some True)"

subsection \<open>Sorting and grouping of due notifications\<close>

text \<open>The table \<^verbatim>\<open>priorityOrder = { high: 3, normal: 2, low: 1 }\<close>.\<close>

fun priorityOrder :: "priority \<Rightarrow> int" where
  "priorityOrder High = 3"
| "priorityOrder Normal = 2"
| "priorityOrder Low = 1"

text \<open>The comparator handed to \<^verbatim>\<open>sort\<close>; \<^verbatim>\<open>a.priority || "normal"\<close> is the default.\<close>

definition compareNotifications :: "ScheduledNotification \<Rightarrow> ScheduledNotification \<Rightarrow> int" where
  "compareNotifications a b =
     (let aPriority = priorityOrder (case priority a of None \<Rightarrow> Normal | Some p \<Rightarrow> p);
          bPriority = priorityOrder (case priority b of None \<Rightarrow> Normal | Some p \<Rightarrow> p)
      in if aPriority \<noteq> bPriority then bPriority - aPriority
         else scheduledTime a - scheduledTime b)"

text \<open>
  \<^verbatim>\<open>Array.prototype.sort\<close> is a stable sort; with a comparator that is a total preorder
  its result is the one a stable insertion sort computes.
\<close>

fun insertBy :: "('a \<Rightarrow> 'a \<Rightarrow> int) \<Rightarrow> 'a \<Rightarrow> 'a list \<Rightarrow> 'a list" where
  "insertBy cmp x [] = [x]"
| "insertBy cmp x (y # ys) = (if cmp x y \<le> 0 then x # y # ys else y # insertBy cmp x ys)"

definition sortBy :: "('a \<Rightarrow> 'a \<Rightarrow> int) \<Rightarrow> 'a list \<Rightarrow> 'a list" where
  "sortBy cmp xs = foldr (insertBy cmp) xs []"

text \<open>
  The \<^verbatim>\<open>for\<close> loop of \<^verbatim>\<open>groupNotificationsByTimeAndPriority\<close> over the sorted list; its
  state is \<^verbatim>\<open>groups\<close>, \<^verbatim>\<open>currentGroup\<close> and \<^verbatim>\<open>groupStartTime\<close>.
\<close>

fun groupLoop ::
  "int \<Rightarrow> ScheduledNotification list
     \<Rightarrow> ScheduledNotification list list \<times> ScheduledNotification list \<times> int
     \<Rightarrow> ScheduledNotification list list \<times> ScheduledNotification list \<times> int" where
  "groupLoop timeWindow [] st = st"
| "groupLoop timeWindow (notification # rest) (groups, currentGroup, groupStartTime) =
     (if length currentGroup = 0 \<or> scheduledTime notification - groupStartTime \<le> timeWindow
      then groupLoop timeWindow rest
             (groups, currentGroup @ [notification],
              if length currentGroup = 0 then scheduledTime notification else groupStartTime)
      else groupLoop timeWindow rest
             (groups @ [currentGroup], [notification], scheduledTime notification))"

text \<open>After the loop: \<^verbatim>\<open>if (currentGroup.length > 0) groups.push(currentGroup)\<close>.\<close>

fun pushLastGroup ::
  "ScheduledNotification list list \<times> ScheduledNotification list \<times> int
     \<Rightarrow> ScheduledNotification list list" where
  "pushLastGroup (groups, currentGroup, groupStartTime) =
     (if length currentGroup > 0 then groups @ [currentGroup] else groups)"

definition groupNotificationsByTimeAndPriority ::
  "ScheduledNotification list \<Rightarrow> int \<Rightarrow> ScheduledNotification list list" where
  "groupNotificationsByTimeAndPriority notifications timeWindow =
     pushLastGroup (groupLoop timeWindow (sortBy compareNotifications notifications) ([], [], 0))"

subsection \<open>The grouping as the specification words it\<close>

text \<open>
  Priority descending (high = 3, normal = 2, low = 1), ties broken by ascending
  \<open>scheduledTime\<close>: \<open>a\<close> may stand before \<open>b\<close>.
\<close>

definition priorityRank :: "ScheduledNotification \<Rightarrow> int" where
  "priorityRank n = (case priority n of None \<Rightarrow> 2 | Some High \<Rightarrow> 3 | Some Normal \<Rightarrow> 2 | Some Low \<Rightarrow> 1)"

definition priorityThenTime :: "ScheduledNotification \<Rightarrow> ScheduledNotification \<Rightarrow> bool" where
  "priorityThenTime a b =
     (priorityRank b < priorityRank a \<or>
      (priorityRank a = priorityRank b \<and> scheduledTime a \<le> scheduledTime b))"

text \<open>
  An item stays in the group anchored at \<open>anchor\<close> unless its \<open>scheduledTime\<close> exceeds
  the anchor by more than the window.
\<close>

definition withinWindow :: "int \<Rightarrow> int \<Rightarrow> ScheduledNotification \<Rightarrow> bool" where
  "withinWindow timeWindow anchor n = (\<not> scheduledTime n - anchor > timeWindow)"

text \<open>
  The greedy walk: the first item anchors a group, the group takes the following items
  up to the first one outside the window, and that item anchors the next group.
\<close>

function greedyWindows :: "int \<Rightarrow> ScheduledNotification list \<Rightarrow> ScheduledNotification list list" where
  "greedyWindows timeWindow [] = []"
| "greedyWindows timeWindow (x # xs) =
     (x # takeWhile (withinWindow timeWindow (scheduledTime x)) xs)
       # greedyWindows timeWindow (dropWhile (withinWindow timeWindow (scheduledTime x)) xs)"
  by pat_completeness auto
termination
  by (relation "measure (\<lambda>(w, xs). length xs)") (auto simp: length_dropWhile_le less_Suc_eq_le)

text \<open>A notification that differs from \<open>base\<close> in its priority and scheduled time only.\<close>

definition at_time :: "ScheduledNotification \<Rightarrow> priority option \<Rightarrow> int \<Rightarrow> ScheduledNotification" where
  "at_time base p t = base\<lparr>scheduledTime := t, priority := p\<rparr>"

subsection \<open>The trigger evaluator (\<^verbatim>\<open>part_000\<close>)\<close>

text \<open>The filter of the evaluator: \<^verbatim>\<open>!n.isTriggered && n.scheduledTime <= now\<close>.\<close>

definition isDue :: "int \<Rightarrow> ScheduledNotification \<Rightarrow> bool" where
  "isDue now n = (\<not> isTriggered n \<and> scheduledTime n \<le> now)"

definition showNotification :: "presentation \<Rightarrow> world \<Rightarrow> world" where
  "showNotification p w = w\<lparr>shown := shown w @ [p]\<rparr>"

text \<open>\<^verbatim>\<open>`${count} overdue task${count > 1 ? "s" : ""} + ${rest} more`\<close>, and its sibling.\<close>

definition countedTitle :: "nat \<Rightarrow> string \<Rightarrow> nat \<Rightarrow> string" where
  "countedTitle n kind groupLength =
     digits n @ '' '' @ kind @ '' task'' @ (if n > 1 then ''s'' else [])
       @ '' + '' @ numberToString (int groupLength - int n) @ '' more''"

text \<open>The call of \<^verbatim>\<open>showNotification\<close> for one group: a single alert or a batch.\<close>

definition presentGroup :: "ScheduledNotification list \<Rightarrow> presentation" where
  "presentGroup group' =
     (if length group' = 1 then
        (let notification = hd group' in
         \<lparr> shown_title = title notification,
           shown_body = body notification,
           shown_data = SingleData (taskId notification) (id' notification),
           shown_priority = priority notification,
           shown_category = category notification,
           shown_taskDueDate = taskDueDate notification,
           shown_snoozeCount = snoozeCount notification,
           shown_isGrouped = False,
           shown_groupCount = None \<rparr>)
      else
        (let overdueCount = length (filter (\<lambda>n. category n = Some Overdue) group');
             highPriorityCount = length (filter (\<lambda>n. priority n = Some High) group');
             groupTitle =
               (if overdueCount > 0 then countedTitle overdueCount ''overdue'' (length group')
                else if highPriorityCount > 0 then countedTitle highPriorityCount ''urgent'' (length group')
                else digits (length group') @ '' tasks need attention'');
             groupBody =
               joinWith '', '' (map (\<lambda>n. replaceFirst ''Don't forget: '' [] (body n)) (take 3 group'));
             remainingCount = int (length group') - 3;
             finalBody =
               (if remainingCount > 0 then groupBody @ '' and '' @ numberToString remainingCount @ '' more''
                else groupBody)
         in \<lparr> shown_title = groupTitle,
              shown_body = finalBody,
              shown_data = GroupData (map taskId group') (map id' group'),
              shown_priority = Some (if list_ex (\<lambda>n. priority n = Some High) group' then High else Normal),
              shown_category = Some (if list_ex (\<lambda>n. category n = Some Overdue) group' then Overdue else Reminder),
              shown_taskDueDate = None,
              shown_snoozeCount = None,
              shown_isGrouped = True,
              shown_groupCount = Some (length group') \<rparr>))"

text \<open>\<^verbatim>\<open>notification.isRecurring && notification.recurringPattern\<close>.\<close>

definition recursAfterDelivery :: "ScheduledNotification \<Rightarrow> bool" where
  "recursAfterDelivery n = (isRecurring n = Some True \<and> recurringPattern n \<noteq> None)"

text \<open>
  The inner loop over the members of a group: mark, then reschedule. A rejection leaves
  the loop.
\<close>

fun triggerMembers :: "env \<Rightarrow> ScheduledNotification list \<Rightarrow> world \<Rightarrow> (error + unit) \<times> world" where
  "triggerMembers env [] w = (Inr (), w)"
| "triggerMembers env (notification # rest) w =
     (case markNotificationTriggered (id' notification) w of
        (Inl e, w1) \<Rightarrow> (Inl e, w1)
      | (Inr u, w1) \<Rightarrow>
          if recursAfterDelivery notification
          then (case scheduleRecurringNotification env notification w1 of
                  (Inl e, w2) \<Rightarrow> (Inl e, w2)
                | (Inr r, w2) \<Rightarrow> triggerMembers env rest w2)
          else triggerMembers env rest w1)"

text \<open>The outer loop over the groups: present, then mark the members.\<close>

fun triggerGroups :: "env \<Rightarrow> ScheduledNotification list list \<Rightarrow> world \<Rightarrow> (error + unit) \<times> world" where
  "triggerGroups env [] w = (Inr (), w)"
| "triggerGroups env (group' # rest) w =
     (case triggerMembers env group' (showNotification (presentGroup group') w) of
        (Inl e, w1) \<Rightarrow> (Inl e, w1)
      | (Inr u, w1) \<Rightarrow> triggerGroups env rest w1)"

text \<open>The body of the \<^verbatim>\<open>try\<close> block of \<^verbatim>\<open>checkAndTriggerNotifications\<close>.\<close>

definition evaluatorPass :: "env \<Rightarrow> world \<Rightarrow> (error + unit) \<times> world" where
  "evaluatorPass env w =
     (let notifications = getScheduledNotifications w;
          now = dateNow env (clockReads w);
          w1 = w\<lparr>clockReads := Suc (clockReads w)\<rparr>;
          dueNotifications = filter (isDue now) notifications
      in if length dueNotifications = 0 then (Inr (), w1)
         else triggerGroups env
                (groupNotificationsByTimeAndPriority dueNotifications (3 * 60 * 1000)) w1)"

text \<open>The \<^verbatim>\<open>catch\<close> logs the error; the function returns either way.\<close>

definition checkAndTriggerNotifications :: "env \<Rightarrow> world \<Rightarrow> world" where
  "checkAndTriggerNotifications env w = snd (evaluatorPass env w)"

text \<open>What a pass started now would find due and untriggered.\<close>

definition dueNow :: "env \<Rightarrow> world \<Rightarrow> ScheduledNotification list" where
  "dueNow env w = filter (isDue (dateNow env (clockReads w))) (getScheduledNotifications w)"

subsection \<open>The snooze engine\<close>

definition snoozeNotification :: "env \<Rightarrow> string \<Rightarrow> int \<Rightarrow> world \<Rightarrow> world" where
  "snoozeNotification env taskId' minutes w =
     (case find (\<lambda>t. task_id t = taskId') (db_tasks w) of
        None \<Rightarrow> w
      | Some task \<Rightarrow>
          (let notifications = getScheduledNotifications w;
               existingNotification = find (\<lambda>n. taskId n = taskId' \<and> \<not> isTriggered n) notifications;
               snoozeCount' =
                 (case existingNotification of
                    None \<Rightarrow> 0
                  | Some n \<Rightarrow> (case snoozeCount n of None \<Rightarrow> 0 | Some c \<Rightarrow> c)) + 1;
               snoozeTime = dateNow env (clockReads w) + minutes * 60 * 1000;
               w1 = w\<lparr>clockReads := Suc (clockReads w)\<rparr>;
               snoozeTitle =
                 (if snoozeCount' > 1 then ''Snoozed Task ('' @ numberToString snoozeCount' @ ''x)''
                  else ''Snoozed Task Reminder'')
           in case scheduleNotification env taskId' snoozeTitle (''Don't forget: '' @ task_title task)
                     snoozeTime
                     \<lparr> opt_priority = Some (if snoozeCount' > 2 then High else Normal),
                       opt_category = Some Reminder,
                       opt_taskDueDate = task_dueDate task,
                       opt_isRecurring = None,
                       opt_recurringPattern = None \<rparr> w1 of
                (Inl e, w2) \<Rightarrow> w2
              | (Inr created, w2) \<Rightarrow>
                  (case find (\<lambda>n. taskId n = taskId' \<and> scheduledTime n = snoozeTime)
                          (getScheduledNotifications w2) of
                     None \<Rightarrow> w2
                   | Some newNotification \<Rightarrow>
                       w2\<lparr>db_notifications :=
                            idb_put (newNotification\<lparr>snoozeCount := Some snoozeCount'\<rparr>)
                              (db_notifications w2)\<rparr>)))"

subsection \<open>The scheduling entry point\<close>

record reminderOptions =
  ropt_priority :: "priority option"
  ropt_taskDueDate :: "int option"

text \<open>
  How a call ended: it returned, it rejected, or the recursion was still going when the
  fuel ran out.
\<close>

datatype outcome =
    Returned
  | Threw error
  | Unfinished

text \<open>
  The function calls itself for the next occurrence of a repeating reminder, and that is
  again in the future: the recursion is bounded by fuel, one unit a call.
\<close>

fun scheduleTaskReminder ::
  "nat \<Rightarrow> env \<Rightarrow> string \<Rightarrow> string \<Rightarrow> int \<Rightarrow> bool \<Rightarrow> recurringPattern option \<Rightarrow> reminderOptions
     \<Rightarrow> world \<Rightarrow> outcome \<times> world" where
  "scheduleTaskReminder 0 env taskId' taskTitle reminderTime isRepeating repeatInterval options w =
     (Unfinished, w)"
| "scheduleTaskReminder (Suc fuel) env taskId' taskTitle reminderTime isRepeating repeatInterval options w =
     (let now = dateNow env (clockReads w);
          w1 = w\<lparr>clockReads := Suc (clockReads w)\<rparr>
      in if reminderTime \<le> now then (Returned, w1)
         else
           (let category' =
                  (case ropt_taskDueDate options of
                     None \<Rightarrow> Reminder
                   | Some dueDate \<Rightarrow>
                       (let timeToDue = dueDate - reminderTime
                        in if timeToDue \<le> 0 then Overdue
                           else if timeToDue \<le> 60 * 60 * 1000 then Deadline
                           else Reminder));
                title' =
                  (if category' = Overdue then ''Overdue Task!''
                   else if category' = Deadline then ''Task Deadline Approaching''
                   else ''Task Reminder'');
                body' = ''Don't forget: '' @ taskTitle
            in case scheduleNotification env taskId' title' body' reminderTime
                      \<lparr> opt_priority =
                          Some (case ropt_priority options of
                                  Some p \<Rightarrow> p
                                | None \<Rightarrow> if category' = Overdue then High else Normal),
                        opt_category = Some category',
                        opt_taskDueDate = ropt_taskDueDate options,
                        opt_isRecurring = None,
                        opt_recurringPattern = None \<rparr> w1 of
                 (Inl e, w2) \<Rightarrow> (Threw e, w2)
               | (Inr created, w2) \<Rightarrow>
                   (case repeatInterval of
                      Some interval \<Rightarrow>
                        if isRepeating
                        then scheduleTaskReminder fuel env taskId' taskTitle
                               (nextOccurrence env interval reminderTime)
                               isRepeating repeatInterval options w2
                        else (Returned, w2)
                    | None \<Rightarrow> (Returned, w2))))"

subsection \<open>The scheduler loop\<close>

text \<open>
  The page: the live \<^verbatim>\<open>setInterval\<close> timers, the handle kept on \<^verbatim>\<open>window\<close>
  (\<^verbatim>\<open>part_000\<close>) or in the module (\<^verbatim>\<open>part_001\<close>), the cleanup closure of \<^verbatim>\<open>part_001\<close>
  (it holds the two handlers it removes) and the listeners attached to \<^verbatim>\<open>document\<close> and
  \<^verbatim>\<open>window\<close>. No event fires in between the calls, so no timeout is pending.
\<close>

datatype listener =
    CheckAndTrigger
  | VisibilityHandler nat
  | FocusHandler nat

record page =
  liveIntervals :: "nat list"
  timersCreated :: nat
  closuresCreated :: nat
  windowNotificationInterval :: "nat option"
  notificationInterval :: "nat option"
  windowNotificationCleanup :: "(listener \<times> listener) option"
  visibilityListeners :: "listener list"
  focusListeners :: "listener list"
  checksStarted :: nat

text \<open>\<^verbatim>\<open>setInterval\<close> returns a fresh handle, never 0.\<close>

definition setInterval :: "page \<Rightarrow> nat \<times> page" where
  "setInterval p =
     (Suc (timersCreated p),
      p\<lparr>liveIntervals := liveIntervals p @ [Suc (timersCreated p)],
        timersCreated := Suc (timersCreated p)\<rparr>)"

definition clearInterval :: "nat \<Rightarrow> page \<Rightarrow> page" where
  "clearInterval handle p = p\<lparr>liveIntervals := removeAll handle (liveIntervals p)\<rparr>"

text \<open>\<^verbatim>\<open>addEventListener\<close> does not attach a callback that is attached already.\<close>

definition addEventListener :: "listener \<Rightarrow> listener list \<Rightarrow> listener list" where
  "addEventListener l ls = (if l \<in> set ls then ls else ls @ [l])"

definition removeEventListener :: "listener \<Rightarrow> listener list \<Rightarrow> listener list" where
  "removeEventListener l ls = removeAll l ls"

text \<open>\<^verbatim>\<open>part_000\<close>, lines 582 to 603.\<close>

definition startNotificationScheduler :: "page \<Rightarrow> page" where
  "startNotificationScheduler p =
     (case setInterval p of
        (checkInterval, p1) \<Rightarrow>
          p1\<lparr>checksStarted := Suc (checksStarted p1),
             closuresCreated := Suc (closuresCreated p1),
             visibilityListeners :=
               addEventListener (VisibilityHandler (closuresCreated p1)) (visibilityListeners p1),
             focusListeners := addEventListener CheckAndTrigger (focusListeners p1),
             windowNotificationInterval := Some checkInterval\<rparr>)"

definition stopNotificationScheduler :: "page \<Rightarrow> page" where
  "stopNotificationScheduler p =
     (case windowNotificationInterval p of
        None \<Rightarrow> p
      | Some intervalId \<Rightarrow>
          if intervalId \<noteq> 0
          then (clearInterval intervalId p)\<lparr>windowNotificationInterval := None\<rparr>
          else p)"

text \<open>\<^verbatim>\<open>part_001\<close>, lines 398 to 445.\<close>

definition startNotificationScheduler_guarded :: "page \<Rightarrow> page" where
  "startNotificationScheduler_guarded p =
     (let p0 = (case notificationInterval p of
                  None \<Rightarrow> p
                | Some old \<Rightarrow> if old \<noteq> 0 then clearInterval old p else p)
      in case setInterval p0 of
           (handle, p1) \<Rightarrow>
             (let handleVisibilityChange = VisibilityHandler (closuresCreated p1);
                  handleFocus = FocusHandler (closuresCreated p1)
              in p1\<lparr>notificationInterval := Some handle,
                    checksStarted := Suc (checksStarted p1),
                    closuresCreated := Suc (closuresCreated p1),
                    visibilityListeners := addEventListener handleVisibilityChange (visibilityListeners p1),
                    focusListeners := addEventListener handleFocus (focusListeners p1),
                    windowNotificationCleanup := Some (handleVisibilityChange, handleFocus)\<rparr>))"

definition stopNotificationScheduler_guarded :: "page \<Rightarrow> page" where
  "stopNotificationScheduler_guarded p =
     (let p1 = (case notificationInterval p of
                  None \<Rightarrow> p
                | Some handle \<Rightarrow>
                    if handle \<noteq> 0 then (clearInterval handle p)\<lparr>notificationInterval := None\<rparr> else p)
      in case windowNotificationCleanup p1 of
           None \<Rightarrow> p1
         | Some (handleVisibilityChange, handleFocus) \<Rightarrow>
             p1\<lparr>visibilityListeners := removeEventListener handleVisibilityChange (visibilityListeners p1),
                focusListeners := removeEventListener handleFocus (focusListeners p1),
                windowNotificationCleanup := None\<rparr>)"

definition freshPage :: page where
  "freshPage =
     \<lparr> liveIntervals = [], timersCreated = 0, closuresCreated = 0,
       windowNotificationInterval = None, notificationInterval = None,
       windowNotificationCleanup = None, visibilityListeners = [], focusListeners = [],
       checksStarted = 0 \<rparr>"

subsection \<open>The operations of the subsystem\<close>

datatype operation =
    ScheduleNotification string string string int scheduleOptions
  | MarkNotificationTriggered string
  | DeleteScheduledNotification string
  | CheckAndTriggerNotifications
  | SnoozeNotification string int
  | ScheduleTaskReminder nat string string int bool "recurringPattern option" reminderOptions

fun perform :: "env \<Rightarrow> operation \<Rightarrow> world \<Rightarrow> world" where
  "perform env (ScheduleNotification taskId' title' body' scheduledTime' options) w =
     snd (scheduleNotification env taskId' title' body' scheduledTime' options w)"
| "perform env (MarkNotificationTriggered key) w = snd (markNotificationTriggered key w)"
| "perform env (DeleteScheduledNotification key) w = snd (deleteScheduledNotification key w)"
| "perform env CheckAndTriggerNotifications w = checkAndTriggerNotifications env w"
| "perform env (SnoozeNotification taskId' minutes) w = snoozeNotification env taskId' minutes w"
| "perform env (ScheduleTaskReminder fuel taskId' taskTitle reminderTime isRepeating repeatInterval options) w =
     snd (scheduleTaskReminder fuel env taskId' taskTitle reminderTime isRepeating repeatInterval options w)"

subsection \<open>A platform to run examples on\<close>

text \<open>
  The calendar of a time zone without offset (UTC), after ECMAScript's \<^verbatim>\<open>MakeDay\<close>:
  days since the epoch to year, month (1 to 12) and day of the month, and back.
\<close>

definition msPerDay :: int where
  "msPerDay = 86400000"

definition civilFromDays :: "int \<Rightarrow> int \<times> int \<times> int" where
  "civilFromDays z =
     (let z1 = z + 719468;
          era = z1 div 146097;
          doe = z1 mod 146097;
          yoe = (doe - doe div 1460 + doe div 36524 - doe div 146096) div 365;
          doy = doe - (365 * yoe + yoe div 4 - yoe div 100);
          mp = (5 * doy + 2) div 153;
          d = doy - (153 * mp + 2) div 5 + 1;
          m = (if mp < 10 then mp + 3 else mp - 9)
      in (yoe + era * 400 + (if m \<le> 2 then 1 else 0), m, d))"

definition daysFromCivil :: "int \<Rightarrow> int \<Rightarrow> int \<Rightarrow> int" where
  "daysFromCivil y m d =
     (let y1 = (if m \<le> 2 then y - 1 else y);
          era = y1 div 400;
          yoe = y1 mod 400;
          doy = (153 * (if m > 2 then m - 3 else m + 9) + 2) div 5 + d - 1;
          doe = yoe * 365 + yoe div 4 - yoe div 100 + doy
      in era * 146097 + doe - 719468)"

definition utcPlusDays :: "int \<Rightarrow> int \<Rightarrow> int" where
  "utcPlusDays n t = t + n * msPerDay"

definition utcPlusMonths :: "int \<Rightarrow> int \<Rightarrow> int" where
  "utcPlusMonths n t =
     (case civilFromDays (t div msPerDay) of
        (y, m, d) \<Rightarrow>
          (daysFromCivil (y + (m - 1 + n) div 12) ((m - 1 + n) mod 12 + 1) 1 + (d - 1)) * msPerDay
            + t mod msPerDay)"

text \<open>
  A platform whose clock stands at \<open>now\<close> for every reading and whose identifiers are
  \<^verbatim>\<open>n0\<close>, \<^verbatim>\<open>n1\<close>, ... in the order they are drawn.
\<close>

definition utcEnv :: "int \<Rightarrow> env" where
  "utcEnv now =
     \<lparr> dateNow = (\<lambda>k. now),
       randomUUID = (\<lambda>k. CHR ''n'' # digits k),
       plusDays = utcPlusDays,
       plusMonths = utcPlusMonths \<rparr>"

definition emptyWorld :: world where
  "emptyWorld = \<lparr> db_notifications = [], db_tasks = [], clockReads = 0, uuidReads = 0, shown = [] \<rparr>"

text \<open>
  The same platform with a clock that moves on: it stands at \<open>start\<close> for the first
  reading and is \<open>step\<close> further at every reading after.
\<close>

definition tickingEnv :: "int \<Rightarrow> int \<Rightarrow> env" where
  "tickingEnv start step = (utcEnv start)\<lparr>dateNow := (\<lambda>k. start + step * int k)\<rparr>"

text \<open>A world with the task \<^verbatim>\<open>t1\<close> and no notification.\<close>

definition taskWorld :: world where
  "taskWorld =
     \<lparr> db_notifications = [],
       db_tasks = [\<lparr> task_id = ''t1'', task_title = ''water'', task_dueDate = None \<rparr>],
       clockReads = 0, uuidReads = 0, shown = [] \<rparr>"

definition dailyOptions :: scheduleOptions where
  "dailyOptions =
     \<lparr> opt_priority = None, opt_category = None, opt_taskDueDate = None,
       opt_isRecurring = Some True, opt_recurringPattern = Some Daily \<rparr>"

text \<open>A world with one daily notification, created at \<open>now\<close> for the time \<open>t\<close>.\<close>

definition firstDaily :: "int \<Rightarrow> int \<Rightarrow> world" where
  "firstDaily now t =
     snd (scheduleNotification (utcEnv now) ''t1'' ''Daily'' ''Don't forget: water'' t dailyOptions emptyWorld)"

text \<open>
  A world where the task \<^verbatim>\<open>t1\<close> has an untriggered notification, snoozed once, that is
  scheduled for 1600000.
\<close>

definition snoozeClash :: world where
  "snoozeClash =
     \<lparr> db_notifications =
         [\<lparr> id' = ''a'', taskId = ''t1'', title = ''Snoozed Task Reminder'',
            body = ''Don't forget: water'', scheduledTime = 1600000, isTriggered = False,
            createdAt = 1000000, priority = Some Normal, category = Some Reminder,
            taskDueDate = None, isGrouped = None, groupId = None, snoozeCount = Some 1,
            originalScheduledTime = Some 1600000, isRecurring = Some False,
            recurringPattern = None \<rparr>],
       db_tasks = [\<lparr> task_id = ''t1'', task_title = ''water'', task_dueDate = None \<rparr>],
       clockReads = 0, uuidReads = 0, shown = [] \<rparr>"

subsection \<open>What the claims speak of\<close>

text \<open>
  The category follows from the gap between the due date and the scheduled time (at most
  0: overdue; at most one hour: deadline; otherwise, or without a due date: reminder),
  and the priority is the caller's, or else high for overdue and normal otherwise.
\<close>

definition derivedFromDueDate :: "reminderOptions \<Rightarrow> ScheduledNotification \<Rightarrow> bool" where
  "derivedFromDueDate options n =
     (category n =
        Some (case ropt_taskDueDate options of
                None \<Rightarrow> Reminder
              | Some dueDate \<Rightarrow>
                  if dueDate - scheduledTime n \<le> 0 then Overdue
                  else if dueDate - scheduledTime n \<le> 3600000 then Deadline
                  else Reminder)
      \<and> priority n =
          Some (case ropt_priority options of
                  Some p \<Rightarrow> p
                | None \<Rightarrow> if category n = Some Overdue then High else Normal))"

text \<open>
  The scheduled time lies after a reading of the clock, and the creation time is the
  reading that came next.
\<close>

definition scheduledAfterGuard :: "env \<Rightarrow> ScheduledNotification \<Rightarrow> bool" where
  "scheduledAfterGuard env n =
     (\<exists>k. dateNow env k < scheduledTime n \<and> createdAt n = dateNow env (Suc k))"

text \<open>The scheduled time lies after the creation time.\<close>

definition futureAtCreation :: "ScheduledNotification \<Rightarrow> bool" where
  "futureAtCreation n = (createdAt n < scheduledTime n)"

text \<open>
  The record \<open>n\<close> is a record of the store \<open>rs\<close>, but for its snooze count (the one field
  that the patch of a snooze writes).
\<close>

definition storedBefore :: "ScheduledNotification list \<Rightarrow> ScheduledNotification \<Rightarrow> bool" where
  "storedBefore rs n = list_ex (\<lambda>m. n = m\<lparr>snoozeCount := snoozeCount n\<rparr>) rs"

text \<open>
  No record that was triggered in the store \<open>rs\<close> is untriggered in the store \<open>rs'\<close>
  (records are told apart by their identifier).
\<close>

definition keepsTriggered :: "ScheduledNotification list \<Rightarrow> ScheduledNotification list \<Rightarrow> bool" where
  "keepsTriggered rs rs' =
     (\<forall>r \<in> set rs. \<forall>r' \<in> set rs'. isTriggered r \<and> id' r' = id' r \<longrightarrow> isTriggered r')"

text \<open>The store \<open>rs'\<close> has unique keys, every key of \<open>rs\<close>, and keeps what was triggered.\<close>

definition storeExtends :: "ScheduledNotification list \<Rightarrow> ScheduledNotification list \<Rightarrow> bool" where
  "storeExtends rs rs' =
     (distinct (map id' rs') \<and> id' ` set rs \<subseteq> id' ` set rs' \<and> keepsTriggered rs rs')"

text \<open>Every record of \<open>rs'\<close> is a record of \<open>rs\<close> as it was, or is triggered, or has a new key.\<close>

definition untouchedOrTriggered :: "ScheduledNotification list \<Rightarrow> ScheduledNotification list \<Rightarrow> bool" where
  "untouchedOrTriggered rs rs' =
     (\<forall>r' \<in> set rs'. r' \<in> set rs \<or> isTriggered r' \<or> id' r' \<notin> id' ` set rs)"

definition deadlineOptions :: reminderOptions where
  "deadlineOptions = \<lparr> ropt_priority = None, ropt_taskDueDate = Some 6000 \<rparr>"

text \<open>A world with one reminder for the time 5000, not repeating.\<close>

definition reminderWorld :: world where
  "reminderWorld =
     snd (scheduleTaskReminder 1 (utcEnv 1000) ''t1'' ''water'' 5000 False None deadlineOptions emptyWorld)"

text \<open>The identifiers of the notifications that one presentation shows.\<close>

definition presentedIds :: "presentation \<Rightarrow> string list" where
  "presentedIds p =
     (case shown_data p of
        SingleData taskId' notificationId \<Rightarrow> [notificationId]
      | GroupData taskIds notificationIds \<Rightarrow> notificationIds)"

text \<open>The world with a second reminder, for the time 5500.\<close>

definition twoReminders :: world where
  "twoReminders =
     snd (scheduleTaskReminder 1 (utcEnv 1000) ''t2'' ''tea'' 5500 False None deadlineOptions reminderWorld)"

section \<open>Properties\<close>

subsection \<open>Sorting\<close>

lemma mset_insertBy: "mset (insertBy cmp x xs) = add_mset x (mset xs)"
  by (induction xs) auto

lemma mset_sortBy: "mset (sortBy cmp xs) = mset xs"
  by (induction xs) (auto simp: sortBy_def mset_insertBy)

lemma set_insertBy: "set (insertBy cmp x xs) = insert x (set xs)"
  by (induction xs) auto

lemma compare_le_iff: "compareNotifications a b \<le> 0 \<longleftrightarrow> priorityThenTime a b"
  by (cases "priority a"; cases "priority b"; cases "the (priority a)"; cases "the (priority b)")
     (auto simp: compareNotifications_def priorityThenTime_def priorityRank_def Let_def)

lemma priorityThenTime_total: "\<not> priorityThenTime a b \<Longrightarrow> priorityThenTime b a"
  by (auto simp: priorityThenTime_def)

lemma priorityThenTime_trans:
  "priorityThenTime a b \<Longrightarrow> priorityThenTime b c \<Longrightarrow> priorityThenTime a c"
  by (auto simp: priorityThenTime_def)

lemma sorted_insertBy:
  "sorted_wrt priorityThenTime xs \<Longrightarrow> sorted_wrt priorityThenTime (insertBy compareNotifications x xs)"
proof (induction xs)
  case Nil
  then show ?case by simp
next
  case (Cons y ys)
  show ?case
  proof (cases "compareNotifications x y \<le> 0")
    case True
    then have "priorityThenTime x y" by (simp add: compare_le_iff)
    with Cons.prems show ?thesis
      using True by (auto intro: priorityThenTime_trans)
  next
    case False
    then have "priorityThenTime y x"
      by (simp add: compare_le_iff priorityThenTime_total)
    with Cons show ?thesis
      using False by (auto simp: set_insertBy)
  qed
qed

lemma sorted_sortBy: "sorted_wrt priorityThenTime (sortBy compareNotifications xs)"
  by (induction xs) (auto simp: sortBy_def sorted_insertBy)

subsection \<open>Grouping\<close>

lemma groupLoop_greedy:
  "cur \<noteq> [] \<Longrightarrow>
   pushLastGroup (groupLoop w xs (gs, cur, a))
   = gs @ [cur @ takeWhile (withinWindow w a) xs] @ greedyWindows w (dropWhile (withinWindow w a) xs)"
proof (induction xs arbitrary: gs cur a)
  case Nil
  then show ?case by simp
next
  case (Cons y ys)
  show ?case
  proof (cases "scheduledTime y - a \<le> w")
    case True
    then have "withinWindow w a y" by (simp add: withinWindow_def)
    with True Cons.prems Cons.IH [of "cur @ [y]" gs a] show ?thesis
      by simp
  next
    case False
    then have "\<not> withinWindow w a y" by (simp add: withinWindow_def)
    with False Cons.prems Cons.IH [of "[y]" "gs @ [cur]" "scheduledTime y"] show ?thesis
      by simp
  qed
qed

lemma groupLoop_start:
  "pushLastGroup (groupLoop w xs ([], [], 0)) = greedyWindows w xs"
proof (cases xs)
  case Nil
  then show ?thesis by simp
next
  case (Cons y ys)
  then show ?thesis
    using groupLoop_greedy [of "[y]" w ys "[]" "scheduledTime y"] by simp
qed

lemma group_is_greedy:
  "groupNotificationsByTimeAndPriority ns w = greedyWindows w (sortBy compareNotifications ns)"
  by (simp add: groupNotificationsByTimeAndPriority_def groupLoop_start)

lemma concat_greedyWindows: "concat (greedyWindows w xs) = xs"
proof (induction w xs rule: greedyWindows.induct)
  case (1 w)
  then show ?case by simp
next
  case (2 w x xs)
  then show ?case by simp
qed

lemma greedyWindows_nonempty: "[] \<notin> set (greedyWindows w xs)"
  by (induction w xs rule: greedyWindows.induct) auto

text \<open>
  Claim C3. The grouping sorts by priority descending with ties broken by ascending
  scheduled time (the sorted list is ordered by \<open>priorityThenTime\<close> and is a rearrangement
  of the input), then walks the sorted list greedily, a new group starting exactly at an
  item whose scheduled time exceeds the anchor of the running group by more than the
  window; four notifications of one priority at 0, 60000, 120000 and 200000 ms, in this
  or in another order, are grouped with a window of 180000 ms into the first three and
  the last one.
\<close>

theorem groupNotifications_sorts_then_groups_greedily:
  "sorted_wrt priorityThenTime (sortBy compareNotifications ns)
   \<and> mset (sortBy compareNotifications ns) = mset ns
   \<and> groupNotificationsByTimeAndPriority ns w = greedyWindows w (sortBy compareNotifications ns)
   \<and> groupNotificationsByTimeAndPriority
        [at_time a p 0, at_time b p 60000, at_time c p 120000, at_time d p 200000] 180000
       = [[at_time a p 0, at_time b p 60000, at_time c p 120000], [at_time d p 200000]]
   \<and> groupNotificationsByTimeAndPriority
        [at_time d p 200000, at_time b p 60000, at_time a p 0, at_time c p 120000] 180000
       = [[at_time a p 0, at_time b p 60000, at_time c p 120000], [at_time d p 200000]]"
proof -
  have ex1: "sortBy compareNotifications
      [at_time a p 0, at_time b p 60000, at_time c p 120000, at_time d p 200000]
      = [at_time a p 0, at_time b p 60000, at_time c p 120000, at_time d p 200000]"
    by (simp add: sortBy_def compareNotifications_def at_time_def)
  have ex2: "sortBy compareNotifications
      [at_time d p 200000, at_time b p 60000, at_time a p 0, at_time c p 120000]
      = [at_time a p 0, at_time b p 60000, at_time c p 120000, at_time d p 200000]"
    by (simp add: sortBy_def compareNotifications_def at_time_def)
  have walk: "greedyWindows 180000
      [at_time a p 0, at_time b p 60000, at_time c p 120000, at_time d p 200000]
      = [[at_time a p 0, at_time b p 60000, at_time c p 120000], [at_time d p 200000]]"
    by (simp add: withinWindow_def at_time_def)
  show ?thesis
    by (simp only: sorted_sortBy mset_sortBy group_is_greedy ex1 ex2 walk simp_thms)
qed

subsection \<open>The object store\<close>

lemma set_idb_insert: "set (idb_insert r rs) = insert r (set rs)"
  by (induction rs) auto

lemma idb_get_None_iff: "idb_get key rs = None \<longleftrightarrow> key \<notin> id' ` set rs"
  by (auto simp: idb_get_def find_None_iff)

lemma idb_get_Some_mem: "idb_get key rs = Some r \<Longrightarrow> r \<in> set rs \<and> id' r = key"
  by (auto simp: idb_get_def find_Some_iff)

lemma idb_get_delete_same: "idb_get key (idb_delete key rs) = None"
  by (auto simp: idb_get_None_iff idb_delete_def)

lemma idb_get_delete_other: "k \<noteq> key \<Longrightarrow> idb_get k (idb_delete key rs) = idb_get k rs"
  by (induction rs) (auto simp: idb_get_def idb_delete_def)

lemma idb_delete_absent: "idb_get key rs = None \<Longrightarrow> idb_delete key rs = rs"
  by (induction rs) (auto simp: idb_get_def idb_delete_def split: if_splits)

subsection \<open>Deleting\<close>

text \<open>
  Claim C9, as the code has it. \<open>deleteScheduledNotification\<close> resolves for every
  identifier: afterwards nothing is stored under the identifier, every other identifier
  holds what it held, and when the identifier was absent the world is unchanged.
\<close>

theorem deleteScheduledNotification_resolves:
  "fst (deleteScheduledNotification key w) = Inr ()
   \<and> idb_get key (db_notifications (snd (deleteScheduledNotification key w))) = None
   \<and> (\<forall>k. k \<noteq> key \<longrightarrow>
          idb_get k (db_notifications (snd (deleteScheduledNotification key w)))
            = idb_get k (db_notifications w))
   \<and> (idb_get key (db_notifications w) = None \<longrightarrow> snd (deleteScheduledNotification key w) = w)"
  by (simp add: deleteScheduledNotification_def idb_get_delete_same idb_get_delete_other
        idb_delete_absent)

theorem deleteScheduledNotification_resolves_witness:
  "fst (deleteScheduledNotification ''n0'' (firstDaily 500 1000)) = Inr ()
   \<and> idb_get ''n0'' (db_notifications (snd (deleteScheduledNotification ''n0'' (firstDaily 500 1000)))) = None
   \<and> idb_get ''n0'' (db_notifications (firstDaily 500 1000)) \<noteq> None
   \<and> idb_get ''n1'' (db_notifications (snd (deleteScheduledNotification ''n0'' (firstDaily 500 1000))))
       = idb_get ''n1'' (db_notifications (firstDaily 500 1000))
   \<and> snd (deleteScheduledNotification ''n1'' (firstDaily 500 1000)) = firstDaily 500 1000"
proof -
  note d0 = deleteScheduledNotification_resolves [of "''n0''" "firstDaily 500 1000"]
  note d1 = deleteScheduledNotification_resolves [of "''n1''" "firstDaily 500 1000"]
  have present: "idb_get ''n0'' (db_notifications (firstDaily 500 1000)) \<noteq> None"
    by code_simp
  have absent: "idb_get ''n1'' (db_notifications (firstDaily 500 1000)) = None"
    by code_simp
  from d0 have other:
    "idb_get ''n1'' (db_notifications (snd (deleteScheduledNotification ''n0'' (firstDaily 500 1000))))
       = idb_get ''n1'' (db_notifications (firstDaily 500 1000))"
    by simp
  from d1 absent have unchanged:
    "snd (deleteScheduledNotification ''n1'' (firstDaily 500 1000)) = firstDaily 500 1000"
    by simp
  from d0 present other unchanged show ?thesis
    by simp
qed

text \<open>
  The claim as stated fails: deleting an identifier that is not in the store resolves,
  it does not reject with NotFound.
\<close>

theorem deleteScheduledNotification_absent_counterexample:
  "idb_get ''n7'' (db_notifications (firstDaily 500 1000)) = None
   \<and> fst (deleteScheduledNotification ''n7'' (firstDaily 500 1000)) \<noteq> Inl NotificationNotFound
   \<and> fst (deleteScheduledNotification ''n7'' (firstDaily 500 1000)) = Inr ()"
  by code_simp

subsection \<open>Creating\<close>

lemma scheduleNotification_cases:
  "scheduleNotification env taskId' title' body' t options w =
     (let n = \<lparr> id' = randomUUID env (uuidReads w), taskId = taskId', title = title', body = body',
                scheduledTime = t, isTriggered = False, createdAt = dateNow env (clockReads w),
                priority = Some (case opt_priority options of None \<Rightarrow> Normal | Some p \<Rightarrow> p),
                category = Some (case opt_category options of None \<Rightarrow> Reminder | Some c \<Rightarrow> c),
                taskDueDate = opt_taskDueDate options, isGrouped = None, groupId = None,
                snoozeCount = Some 0, originalScheduledTime = Some t,
                isRecurring = Some (case opt_isRecurring options of None \<Rightarrow> False | Some b \<Rightarrow> b),
                recurringPattern = opt_recurringPattern options \<rparr>
      in if idb_get (randomUUID env (uuidReads w)) (db_notifications w) = None
         then (Inr n, w\<lparr>clockReads := Suc (clockReads w), uuidReads := Suc (uuidReads w),
                         db_notifications := idb_insert n (db_notifications w)\<rparr>)
         else (Inl ConstraintError, w\<lparr>clockReads := Suc (clockReads w), uuidReads := Suc (uuidReads w)\<rparr>))"
  by (simp add: scheduleNotification_def Let_def idb_add_def)


lemma scheduleNotification_Inr:
  assumes "scheduleNotification env taskId' title' body' t options w = (Inr n, w')"
  shows "id' n = randomUUID env (uuidReads w)"
    and "scheduledTime n = t"
    and "originalScheduledTime n = Some t"
    and "isTriggered n = False"
    and "createdAt n = dateNow env (clockReads w)"
    and "snoozeCount n = Some 0"
    and "recurringPattern n = opt_recurringPattern options"
    and "isRecurring n = Some (case opt_isRecurring options of None \<Rightarrow> False | Some b \<Rightarrow> b)"
    and "priority n = Some (case opt_priority options of None \<Rightarrow> Normal | Some p \<Rightarrow> p)"
    and "category n = Some (case opt_category options of None \<Rightarrow> Reminder | Some c \<Rightarrow> c)"
    and "taskId n = taskId'"
    and "set (db_notifications w') = insert n (set (db_notifications w))"
    and "idb_get (id' n) (db_notifications w) = None"
    and "clockReads w' = Suc (clockReads w)"
    and "uuidReads w' = Suc (uuidReads w)"
    and "db_tasks w' = db_tasks w"
    and "shown w' = shown w"
    and "db_notifications w' = idb_insert n (db_notifications w)"
proof -
  have fresh: "idb_get (randomUUID env (uuidReads w)) (db_notifications w) = None"
    using assms by (simp add: scheduleNotification_cases Let_def split: if_splits)
  with assms have
    n: "n = \<lparr> id' = randomUUID env (uuidReads w), taskId = taskId', title = title', body = body',
                scheduledTime = t, isTriggered = False, createdAt = dateNow env (clockReads w),
                priority = Some (case opt_priority options of None \<Rightarrow> Normal | Some p \<Rightarrow> p),
                category = Some (case opt_category options of None \<Rightarrow> Reminder | Some c \<Rightarrow> c),
                taskDueDate = opt_taskDueDate options, isGrouped = None, groupId = None,
                snoozeCount = Some 0, originalScheduledTime = Some t,
                isRecurring = Some (case opt_isRecurring options of None \<Rightarrow> False | Some b \<Rightarrow> b),
                recurringPattern = opt_recurringPattern options \<rparr>"
    and w': "w' = w\<lparr>clockReads := Suc (clockReads w), uuidReads := Suc (uuidReads w),
                         db_notifications := idb_insert n (db_notifications w)\<rparr>"
    by (auto simp add: scheduleNotification_cases Let_def)
  show "id' n = randomUUID env (uuidReads w)" by (subst n) simp
  show "scheduledTime n = t" by (subst n) simp
  show "originalScheduledTime n = Some t" by (subst n) simp
  show "isTriggered n = False" by (subst n) simp
  show "createdAt n = dateNow env (clockReads w)" by (subst n) simp
  show "snoozeCount n = Some 0" by (subst n) simp
  show "recurringPattern n = opt_recurringPattern options" by (subst n) simp
  show "isRecurring n = Some (case opt_isRecurring options of None \<Rightarrow> False | Some b \<Rightarrow> b)"
    by (subst n) simp
  show "priority n = Some (case opt_priority options of None \<Rightarrow> Normal | Some p \<Rightarrow> p)"
    by (subst n) simp
  show "category n = Some (case opt_category options of None \<Rightarrow> Reminder | Some c \<Rightarrow> c)"
    by (subst n) simp
  show "taskId n = taskId'" by (subst n) simp
  show "set (db_notifications w') = insert n (set (db_notifications w))"
    by (simp add: w' set_idb_insert)
  have "id' n = randomUUID env (uuidReads w)" by (subst n) simp
  with fresh show "idb_get (id' n) (db_notifications w) = None" by simp
  show "clockReads w' = Suc (clockReads w)" by (simp add: w')
  show "uuidReads w' = Suc (uuidReads w)" by (simp add: w')
  show "db_tasks w' = db_tasks w" by (simp add: w')
  show "shown w' = shown w" by (simp add: w')
  show "db_notifications w' = idb_insert n (db_notifications w)" by (simp add: w')
qed

lemma scheduleNotification_Inl:
  assumes "scheduleNotification env taskId' title' body' t options w = (Inl e, w')"
  shows "db_notifications w' = db_notifications w"
    and "clockReads w' = Suc (clockReads w)"
    and "uuidReads w' = Suc (uuidReads w)"
    and "db_tasks w' = db_tasks w"
    and "shown w' = shown w"
proof -
  from assms have w': "w' = w\<lparr>clockReads := Suc (clockReads w), uuidReads := Suc (uuidReads w)\<rparr>"
    by (simp add: scheduleNotification_cases Let_def split: if_splits)
  show "db_notifications w' = db_notifications w" by (simp add: w')
  show "clockReads w' = Suc (clockReads w)" by (simp add: w')
  show "uuidReads w' = Suc (uuidReads w)" by (simp add: w')
  show "db_tasks w' = db_tasks w" by (simp add: w')
  show "shown w' = shown w" by (simp add: w')
qed

lemma scheduleNotification_Inr_text:
  assumes "scheduleNotification env taskId' title' body' t options w = (Inr n, w')"
  shows "title n = title'" and "body n = body'" and "taskDueDate n = opt_taskDueDate options"
proof -
  from assms have "idb_get (randomUUID env (uuidReads w)) (db_notifications w) = None"
    by (simp add: scheduleNotification_cases Let_def split: if_splits)
  with assms have
    n: "n = \<lparr> id' = randomUUID env (uuidReads w), taskId = taskId', title = title', body = body',
                scheduledTime = t, isTriggered = False, createdAt = dateNow env (clockReads w),
                priority = Some (case opt_priority options of None \<Rightarrow> Normal | Some p \<Rightarrow> p),
                category = Some (case opt_category options of None \<Rightarrow> Reminder | Some c \<Rightarrow> c),
                taskDueDate = opt_taskDueDate options, isGrouped = None, groupId = None,
                snoozeCount = Some 0, originalScheduledTime = Some t,
                isRecurring = Some (case opt_isRecurring options of None \<Rightarrow> False | Some b \<Rightarrow> b),
                recurringPattern = opt_recurringPattern options \<rparr>"
    by (auto simp add: scheduleNotification_cases Let_def)
  show "title n = title'" by (subst n) simp
  show "body n = body'" by (subst n) simp
  show "taskDueDate n = opt_taskDueDate options" by (subst n) simp
qed

subsection \<open>Recurrence chains\<close>

lemma scheduleRecurringNotification_next:
  assumes "scheduleRecurringNotification env a w = (Inr (Some b), w')"
  shows "selfAnchored b" and "followsOn env a b"
proof -
  from assms obtain pattern where p: "recurringPattern a = Some pattern"
    by (cases "recurringPattern a") (simp_all add: scheduleRecurringNotification_def)
  obtain r w1 where sn:
    "scheduleNotification env (taskId a) (title a) (body a)
       (nextOccurrence env pattern (anchorTime a))
       \<lparr> opt_priority = priority a, opt_category = category a, opt_taskDueDate = taskDueDate a,
         opt_isRecurring = Some True, opt_recurringPattern = Some pattern \<rparr> w = (r, w1)"
    by (rule prod.exhaust)
  from assms p sn have "r = Inr b"
    by (cases r) (simp_all add: scheduleRecurringNotification_def)
  with sn have created:
    "scheduleNotification env (taskId a) (title a) (body a)
       (nextOccurrence env pattern (anchorTime a))
       \<lparr> opt_priority = priority a, opt_category = category a, opt_taskDueDate = taskDueDate a,
         opt_isRecurring = Some True, opt_recurringPattern = Some pattern \<rparr> w = (Inr b, w1)"
    by simp
  show "selfAnchored b"
    using scheduleNotification_Inr(2,3) [OF created] by (simp add: selfAnchored_def)
  show "followsOn env a b"
    using scheduleNotification_Inr(2,7,8) [OF created] p by (simp add: followsOn_def)
qed

lemma recurrenceChain_hd:
  "recurrenceChain env n first w \<noteq> [] \<and> hd (recurrenceChain env n first w) = first"
  by (cases n) simp_all

lemma recurrenceChain_Suc_cases:
  obtains (stops) "recurrenceChain env (Suc n) first w = [first]"
  | (goes_on) next' w' where "scheduleRecurringNotification env first w = (Inr (Some next'), w')"
      and "recurrenceChain env (Suc n) first w = first # recurrenceChain env n next' w'"
proof (cases "scheduleRecurringNotification env first w")
  case (Pair r w')
  show ?thesis
  proof (cases r)
    case (Inl e)
    with Pair have "recurrenceChain env (Suc n) first w = [first]" by simp
    then show ?thesis by (rule stops)
  next
    case (Inr created)
    show ?thesis
    proof (cases created)
      case None
      with Pair Inr have "recurrenceChain env (Suc n) first w = [first]" by simp
      then show ?thesis by (rule stops)
    next
      case (Some next')
      with Pair Inr have "scheduleRecurringNotification env first w = (Inr (Some next'), w')"
        and "recurrenceChain env (Suc n) first w = first # recurrenceChain env n next' w'"
        by simp_all
      then show ?thesis by (rule goes_on)
    qed
  qed
qed

lemma recurrenceChain_selfAnchored:
  "selfAnchored first \<Longrightarrow> list_all selfAnchored (recurrenceChain env n first w)"
proof (induction n arbitrary: first w)
  case 0
  then show ?case by simp
next
  case (Suc n)
  show ?case
  proof (cases rule: recurrenceChain_Suc_cases [of env n first w])
    case stops
    with Suc.prems show ?thesis by simp
  next
    case (goes_on next' w')
    from goes_on(1) have "selfAnchored next'"
      by (rule scheduleRecurringNotification_next(1))
    then have "list_all selfAnchored (recurrenceChain env n next' w')"
      by (rule Suc.IH)
    with Suc.prems goes_on(2) show ?thesis by simp
  qed
qed

lemma recurrenceChain_follows:
  "successively (followsOn env) (recurrenceChain env n first w)"
proof (induction n arbitrary: first w)
  case 0
  then show ?case by simp
next
  case (Suc n)
  show ?case
  proof (cases rule: recurrenceChain_Suc_cases [of env n first w])
    case stops
    then show ?thesis by simp
  next
    case (goes_on next' w')
    from goes_on(1) have "followsOn env first next'"
      by (rule scheduleRecurringNotification_next(2))
    moreover have "successively (followsOn env) (recurrenceChain env n next' w')"
      by (rule Suc.IH)
    ultimately show ?thesis
      using goes_on(2) recurrenceChain_hd [of env n next' w']
      by (simp add: successively_Cons)
  qed
qed

text \<open>
  Claim C1, as the code has it. In a recurrence chain of any length every record has its
  own scheduled time as \<open>originalScheduledTime\<close> (\<open>scheduleNotification\<close> sets it at every
  creation and takes no anchor from its caller), and every record after the first is
  scheduled one interval after the anchor of the record it follows.
\<close>

theorem recurrenceChain_anchors:
  "list_all selfAnchored (recurrenceChainFrom env n taskId' title' body' t options w)
   \<and> successively (followsOn env) (recurrenceChainFrom env n taskId' title' body' t options w)"
proof (cases "scheduleNotification env taskId' title' body' t options w")
  case (Pair r w')
  show ?thesis
  proof (cases r)
    case (Inl e)
    with Pair show ?thesis by (simp add: recurrenceChainFrom_def)
  next
    case (Inr first)
    with Pair have created: "scheduleNotification env taskId' title' body' t options w = (Inr first, w')"
      by simp
    have "selfAnchored first"
      using scheduleNotification_Inr(2,3) [OF created] by (simp add: selfAnchored_def)
    then have "list_all selfAnchored (recurrenceChain env n first w')"
      by (rule recurrenceChain_selfAnchored)
    moreover have "successively (followsOn env) (recurrenceChain env n first w')"
      by (rule recurrenceChain_follows)
    ultimately show ?thesis
      using created by (simp add: recurrenceChainFrom_def)
  qed
qed

text \<open>
  The claim as stated fails at the second record of a daily chain: its anchor is its own
  scheduled time, one day after the scheduled time of the first record.
\<close>

theorem recurrenceChain_anchor_counterexample:
  "map scheduledTime (recurrenceChainFrom (utcEnv 500) 2 ''t1'' ''Daily'' ''water'' 1000 dailyOptions emptyWorld)
     = [1000, 86401000, 172801000]
   \<and> map originalScheduledTime
        (recurrenceChainFrom (utcEnv 500) 2 ''t1'' ''Daily'' ''water'' 1000 dailyOptions emptyWorld)
     = [Some 1000, Some 86401000, Some 172801000]
   \<and> \<not> anchoredAtFirst
          (recurrenceChainFrom (utcEnv 500) 2 ''t1'' ''Daily'' ''water'' 1000 dailyOptions emptyWorld)"
  by code_simp

subsection \<open>The scheduler loop\<close>

text \<open>
  Claim C8 fails on both variants. After start, start, stop on a fresh page the variant of
  \<^verbatim>\<open>part_000\<close> still has the timer of the first start running and three listeners
  attached; the variant of \<^verbatim>\<open>part_001\<close> has no timer left, but the two listeners of the
  first start are still attached.
\<close>

theorem scheduler_start_start_stop:
  "liveIntervals (stopNotificationScheduler
       (startNotificationScheduler (startNotificationScheduler freshPage))) = [1]
   \<and> visibilityListeners (stopNotificationScheduler
       (startNotificationScheduler (startNotificationScheduler freshPage)))
       = [VisibilityHandler 0, VisibilityHandler 1]
   \<and> focusListeners (stopNotificationScheduler
       (startNotificationScheduler (startNotificationScheduler freshPage))) = [CheckAndTrigger]
   \<and> liveIntervals (stopNotificationScheduler_guarded
       (startNotificationScheduler_guarded (startNotificationScheduler_guarded freshPage))) = []
   \<and> visibilityListeners (stopNotificationScheduler_guarded
       (startNotificationScheduler_guarded (startNotificationScheduler_guarded freshPage)))
       = [VisibilityHandler 0]
   \<and> focusListeners (stopNotificationScheduler_guarded
       (startNotificationScheduler_guarded (startNotificationScheduler_guarded freshPage)))
       = [FocusHandler 0]"
  by code_simp

subsection \<open>Snoozing\<close>

text \<open>
  Claim C6 fails where the task already has a record at the very time the snooze lands on
  and that record stands first in the store: the patch finds it by task and scheduled
  time, so the earlier record gets the new count and the record just created keeps 0.
\<close>

theorem snoozeNotification_patches_other_record:
  "map id' (db_notifications (snoozeNotification (utcEnv 1000000) ''t1'' 10 snoozeClash)) = [''a'', ''n0'']
   \<and> map title (db_notifications (snoozeNotification (utcEnv 1000000) ''t1'' 10 snoozeClash))
       = [''Snoozed Task Reminder'', ''Snoozed Task (2x)'']
   \<and> map scheduledTime (db_notifications (snoozeNotification (utcEnv 1000000) ''t1'' 10 snoozeClash))
       = [1600000, 1600000]
   \<and> map snoozeCount (db_notifications (snoozeNotification (utcEnv 1000000) ''t1'' 10 snoozeClash))
       = [Some 2, Some 0]"
  by code_simp

subsection \<open>The scheduling entry point\<close>

lemma scheduleTaskReminder_rejects:
  "t \<le> dateNow env (clockReads w) \<Longrightarrow>
   scheduleTaskReminder (Suc fuel) env taskId' taskTitle t rep iv options w
     = (Returned, w\<lparr>clockReads := Suc (clockReads w)\<rparr>)"
  by (simp add: Let_def)

declare scheduleTaskReminder.simps [simp del]

text \<open>One call of the entry point whose guard lets the reminder through.\<close>

lemma scheduleTaskReminder_accepts:
  assumes "\<not> t \<le> dateNow env (clockReads w)"
  obtains title' options' r w2 where
    "scheduleNotification env taskId' title' (''Don't forget: '' @ taskTitle) t options'
       (w\<lparr>clockReads := Suc (clockReads w)\<rparr>) = (r, w2)"
    and "opt_category options' =
           Some (case ropt_taskDueDate options of
                   None \<Rightarrow> Reminder
                 | Some dueDate \<Rightarrow>
                     if dueDate - t \<le> 0 then Overdue
                     else if dueDate - t \<le> 3600000 then Deadline else Reminder)"
    and "opt_priority options' =
           Some (case ropt_priority options of
                   Some p \<Rightarrow> p
                 | None \<Rightarrow> if opt_category options' = Some Overdue then High else Normal)"
    and "scheduleTaskReminder (Suc fuel) env taskId' taskTitle t rep iv options w =
           (case r of
              Inl e \<Rightarrow> (Threw e, w2)
            | Inr created \<Rightarrow>
                (case iv of
                   Some interval \<Rightarrow>
                     if rep
                     then scheduleTaskReminder fuel env taskId' taskTitle
                            (nextOccurrence env interval t) rep iv options w2
                     else (Returned, w2)
                 | None \<Rightarrow> (Returned, w2)))"
proof -
  define category' where "category' =
    (case ropt_taskDueDate options of
       None \<Rightarrow> Reminder
     | Some dueDate \<Rightarrow>
         if dueDate - t \<le> 0 then Overdue
         else if dueDate - t \<le> 60 * 60 * 1000 then Deadline else Reminder)"
  define title' where "title' =
    (if category' = Overdue then ''Overdue Task!''
     else if category' = Deadline then ''Task Deadline Approaching''
     else ''Task Reminder'')"
  define options' where "options' =
    \<lparr> opt_priority = Some (case ropt_priority options of
                             Some p \<Rightarrow> p
                           | None \<Rightarrow> if category' = Overdue then High else Normal),
      opt_category = Some category',
      opt_taskDueDate = ropt_taskDueDate options,
      opt_isRecurring = None,
      opt_recurringPattern = None \<rparr>"
  obtain r w2 where sn:
    "scheduleNotification env taskId' title' (''Don't forget: '' @ taskTitle) t options'
       (w\<lparr>clockReads := Suc (clockReads w)\<rparr>) = (r, w2)"
    by (rule prod.exhaust)
  have cat: "opt_category options' =
           Some (case ropt_taskDueDate options of
                   None \<Rightarrow> Reminder
                 | Some dueDate \<Rightarrow>
                     if dueDate - t \<le> 0 then Overdue
                     else if dueDate - t \<le> 3600000 then Deadline else Reminder)"
    by (simp add: options'_def category'_def split: option.splits)
  have pri: "opt_priority options' =
           Some (case ropt_priority options of
                   Some p \<Rightarrow> p
                 | None \<Rightarrow> if opt_category options' = Some Overdue then High else Normal)"
    by (simp add: options'_def)
  have run: "scheduleTaskReminder (Suc fuel) env taskId' taskTitle t rep iv options w =
           (case r of
              Inl e \<Rightarrow> (Threw e, w2)
            | Inr created \<Rightarrow>
                (case iv of
                   Some interval \<Rightarrow>
                     if rep
                     then scheduleTaskReminder fuel env taskId' taskTitle
                            (nextOccurrence env interval t) rep iv options w2
                     else (Returned, w2)
                 | None \<Rightarrow> (Returned, w2)))"
    unfolding scheduleTaskReminder.simps Let_def
    using assms sn [unfolded title'_def options'_def category'_def]
    by (simp only: if_False prod.case)
  from sn cat pri run show ?thesis by (rule that)
qed

lemma scheduleTaskReminder_created:
  "n \<in> set (db_notifications (snd (scheduleTaskReminder fuel env taskId' taskTitle t rep iv options w)))
   \<Longrightarrow> n \<in> set (db_notifications w) \<or> (derivedFromDueDate options n \<and> scheduledAfterGuard env n)"
proof (induction fuel arbitrary: t w)
  case 0
  then show ?case by (simp add: scheduleTaskReminder.simps(1))
next
  case (Suc fuel)
  show ?case
  proof (cases "t \<le> dateNow env (clockReads w)")
    case True
    with Suc.prems show ?thesis
      by (simp add: scheduleTaskReminder_rejects)
  next
    case False
    then obtain title' options' r w2 where
      sn: "scheduleNotification env taskId' title' (''Don't forget: '' @ taskTitle) t options'
             (w\<lparr>clockReads := Suc (clockReads w)\<rparr>) = (r, w2)"
      and cat: "opt_category options' =
           Some (case ropt_taskDueDate options of
                   None \<Rightarrow> Reminder
                 | Some dueDate \<Rightarrow>
                     if dueDate - t \<le> 0 then Overdue
                     else if dueDate - t \<le> 3600000 then Deadline else Reminder)"
      and pri: "opt_priority options' =
           Some (case ropt_priority options of
                   Some p \<Rightarrow> p
                 | None \<Rightarrow> if opt_category options' = Some Overdue then High else Normal)"
      and run: "scheduleTaskReminder (Suc fuel) env taskId' taskTitle t rep iv options w =
           (case r of
              Inl e \<Rightarrow> (Threw e, w2)
            | Inr created \<Rightarrow>
                (case iv of
                   Some interval \<Rightarrow>
                     if rep
                     then scheduleTaskReminder fuel env taskId' taskTitle
                            (nextOccurrence env interval t) rep iv options w2
                     else (Returned, w2)
                 | None \<Rightarrow> (Returned, w2)))"
      by (rule scheduleTaskReminder_accepts)
    show ?thesis
    proof (cases r)
      case (Inl e)
      with sn have "db_notifications w2 = db_notifications (w\<lparr>clockReads := Suc (clockReads w)\<rparr>)"
        by (simp add: scheduleNotification_Inl(1))
      with Suc.prems run Inl show ?thesis by simp
    next
      case (Inr created)
      with sn have created:
        "scheduleNotification env taskId' title' (''Don't forget: '' @ taskTitle) t options'
             (w\<lparr>clockReads := Suc (clockReads w)\<rparr>) = (Inr created, w2)"
        by simp
      note facts = scheduleNotification_Inr [OF created]
      have stored: "set (db_notifications w2) = insert created (set (db_notifications w))"
        using facts(12) by simp
      have "derivedFromDueDate options created"
        using facts(2,9,10) cat pri by (simp add: derivedFromDueDate_def split: option.splits)
      moreover have "scheduledAfterGuard env created"
        unfolding scheduledAfterGuard_def
      proof (intro exI conjI)
        show "dateNow env (clockReads w) < scheduledTime created"
          using False facts(2) by simp
        show "createdAt created = dateNow env (Suc (clockReads w))"
          using facts(5) by simp
      qed
      ultimately have new: "derivedFromDueDate options created \<and> scheduledAfterGuard env created"
        by simp
      have "n \<in> set (db_notifications w2)
            \<or> (derivedFromDueDate options n \<and> scheduledAfterGuard env n)"
      proof (cases "rep \<and> iv \<noteq> None")
        case True
        then obtain interval where "iv = Some interval" by auto
        with True Suc.prems run Inr have
          "n \<in> set (db_notifications (snd (scheduleTaskReminder fuel env taskId' taskTitle
                  (nextOccurrence env interval t) rep iv options w2)))"
          by simp
        then show ?thesis by (rule Suc.IH)
      next
        case False
        with Suc.prems run Inr show ?thesis
          by (cases iv) simp_all
      qed
      with stored new show ?thesis by auto
    qed
  qed
qed

lemma scheduleTaskReminder_keeps:
  "set (db_notifications w)
     \<subseteq> set (db_notifications (snd (scheduleTaskReminder fuel env taskId' taskTitle t rep iv options w)))"
proof (induction fuel arbitrary: t w)
  case 0
  then show ?case by (simp add: scheduleTaskReminder.simps(1))
next
  case (Suc fuel)
  show ?case
  proof (cases "t \<le> dateNow env (clockReads w)")
    case True
    then show ?thesis
      by (simp add: scheduleTaskReminder_rejects)
  next
    case False
    then obtain title' options' r w2 where
      sn: "scheduleNotification env taskId' title' (''Don't forget: '' @ taskTitle) t options'
             (w\<lparr>clockReads := Suc (clockReads w)\<rparr>) = (r, w2)"
      and run: "scheduleTaskReminder (Suc fuel) env taskId' taskTitle t rep iv options w =
           (case r of
              Inl e \<Rightarrow> (Threw e, w2)
            | Inr created \<Rightarrow>
                (case iv of
                   Some interval \<Rightarrow>
                     if rep
                     then scheduleTaskReminder fuel env taskId' taskTitle
                            (nextOccurrence env interval t) rep iv options w2
                     else (Returned, w2)
                 | None \<Rightarrow> (Returned, w2)))"
      by (rule scheduleTaskReminder_accepts)
    show ?thesis
    proof (cases r)
      case (Inl e)
      with sn have "db_notifications w2 = db_notifications (w\<lparr>clockReads := Suc (clockReads w)\<rparr>)"
        by (simp add: scheduleNotification_Inl(1))
      with run Inl show ?thesis by simp
    next
      case (Inr created)
      with sn have created:
        "scheduleNotification env taskId' title' (''Don't forget: '' @ taskTitle) t options'
             (w\<lparr>clockReads := Suc (clockReads w)\<rparr>) = (Inr created, w2)"
        by simp
      have stored: "set (db_notifications w) \<subseteq> set (db_notifications w2)"
        using scheduleNotification_Inr(12) [OF created] by auto
      show ?thesis
      proof (cases "rep \<and> iv \<noteq> None")
        case True
        then obtain interval where iv: "iv = Some interval" by auto
        have "set (db_notifications w2)
          \<subseteq> set (db_notifications (snd (scheduleTaskReminder fuel env taskId' taskTitle
                  (nextOccurrence env interval t) rep iv options w2)))"
          by (rule Suc.IH)
        with stored True iv run Inr show ?thesis by simp
      next
        case False
        with stored run Inr show ?thesis
          by (cases iv) simp_all
      qed
    qed
  qed
qed

lemma scheduleTaskReminder_first:
  assumes "dateNow env (clockReads w) < t"
    and "idb_get (randomUUID env (uuidReads w)) (db_notifications w) = None"
  shows "\<exists>n \<in> set (db_notifications (snd (scheduleTaskReminder (Suc fuel) env taskId' taskTitle t rep iv options w))).
           id' n = randomUUID env (uuidReads w) \<and> scheduledTime n = t \<and> n \<notin> set (db_notifications w)"
proof -
  from assms(1) have "\<not> t \<le> dateNow env (clockReads w)" by simp
  then obtain title' options' r w2 where
      sn: "scheduleNotification env taskId' title' (''Don't forget: '' @ taskTitle) t options'
             (w\<lparr>clockReads := Suc (clockReads w)\<rparr>) = (r, w2)"
      and run: "scheduleTaskReminder (Suc fuel) env taskId' taskTitle t rep iv options w =
           (case r of
              Inl e \<Rightarrow> (Threw e, w2)
            | Inr created \<Rightarrow>
                (case iv of
                   Some interval \<Rightarrow>
                     if rep
                     then scheduleTaskReminder fuel env taskId' taskTitle
                            (nextOccurrence env interval t) rep iv options w2
                     else (Returned, w2)
                 | None \<Rightarrow> (Returned, w2)))"
      by (rule scheduleTaskReminder_accepts)
  from assms(2) sn obtain created where r: "r = Inr created"
    by (cases r) (simp_all add: scheduleNotification_cases Let_def)
  with sn have created:
    "scheduleNotification env taskId' title' (''Don't forget: '' @ taskTitle) t options'
       (w\<lparr>clockReads := Suc (clockReads w)\<rparr>) = (Inr created, w2)"
    by simp
  note facts = scheduleNotification_Inr [OF created]
  have "created \<in> set (db_notifications w2)"
    using facts(12) by simp
  moreover have "set (db_notifications w2)
      \<subseteq> set (db_notifications (snd (scheduleTaskReminder (Suc fuel) env taskId' taskTitle t rep iv options w)))"
  proof (cases "rep \<and> iv \<noteq> None")
    case True
    then obtain interval where iv: "iv = Some interval" by auto
    with True run r show ?thesis
      using scheduleTaskReminder_keeps [of w2 fuel env taskId' taskTitle "nextOccurrence env interval t" rep iv options]
      by simp
  next
    case False
    with run r show ?thesis by (cases iv) simp_all
  qed
  moreover have "created \<notin> set (db_notifications w)"
    using facts(13) by (auto simp: idb_get_None_iff)
  ultimately show ?thesis
    using facts(1,2) by auto
qed

text \<open>
  Claim C7. Every record that \<open>scheduleTaskReminder\<close> adds to the store has the category
  that the gap between the due date and its scheduled time gives (overdue at a gap of at
  most 0, deadline at a positive gap of at most 3600000 ms, reminder otherwise) and the
  caller's priority or else high exactly for overdue; and a call with a reminder time in
  the future and an unused identifier does add the record for that time.
\<close>

theorem scheduleTaskReminder_category_priority:
  "(\<forall>n \<in> set (db_notifications
               (snd (scheduleTaskReminder fuel env taskId' taskTitle t rep iv options w))).
      n \<in> set (db_notifications w) \<or> derivedFromDueDate options n)
   \<and> (dateNow env (clockReads w) < t
        \<and> idb_get (randomUUID env (uuidReads w)) (db_notifications w) = None \<longrightarrow>
       (\<exists>n \<in> set (db_notifications
                   (snd (scheduleTaskReminder (Suc fuel) env taskId' taskTitle t rep iv options w))).
          id' n = randomUUID env (uuidReads w) \<and> scheduledTime n = t
          \<and> n \<notin> set (db_notifications w) \<and> derivedFromDueDate options n))"
proof (intro conjI ballI impI)
  fix n
  assume "n \<in> set (db_notifications
               (snd (scheduleTaskReminder fuel env taskId' taskTitle t rep iv options w)))"
  then show "n \<in> set (db_notifications w) \<or> derivedFromDueDate options n"
    using scheduleTaskReminder_created by blast
next
  assume "dateNow env (clockReads w) < t
        \<and> idb_get (randomUUID env (uuidReads w)) (db_notifications w) = None"
  then obtain n where
    n: "n \<in> set (db_notifications
                   (snd (scheduleTaskReminder (Suc fuel) env taskId' taskTitle t rep iv options w)))"
    and new: "id' n = randomUUID env (uuidReads w)" "scheduledTime n = t"
      "n \<notin> set (db_notifications w)"
    using scheduleTaskReminder_first [of env w t fuel taskId' taskTitle rep iv options] by blast
  from n new(3) have "derivedFromDueDate options n"
    using scheduleTaskReminder_created by blast
  with n new show "\<exists>n \<in> set (db_notifications
                   (snd (scheduleTaskReminder (Suc fuel) env taskId' taskTitle t rep iv options w))).
          id' n = randomUUID env (uuidReads w) \<and> scheduledTime n = t
          \<and> n \<notin> set (db_notifications w) \<and> derivedFromDueDate options n"
    by blast
qed

theorem scheduleTaskReminder_category_priority_witness:
  "dateNow (utcEnv 1000) (clockReads emptyWorld) < 5000
   \<and> idb_get (randomUUID (utcEnv 1000) (uuidReads emptyWorld)) (db_notifications emptyWorld) = None
   \<and> (\<exists>n \<in> set (db_notifications
                   (snd (scheduleTaskReminder (Suc 0) (utcEnv 1000) ''t1'' ''water'' 5000 False None
                           deadlineOptions emptyWorld))).
          id' n = randomUUID (utcEnv 1000) (uuidReads emptyWorld) \<and> scheduledTime n = 5000
          \<and> n \<notin> set (db_notifications emptyWorld) \<and> derivedFromDueDate deadlineOptions n)
   \<and> map category (db_notifications
         (snd (scheduleTaskReminder (Suc 0) (utcEnv 1000) ''t1'' ''water'' 5000 False None
                 deadlineOptions emptyWorld))) = [Some Deadline]
   \<and> map priority (db_notifications
         (snd (scheduleTaskReminder (Suc 0) (utcEnv 1000) ''t1'' ''water'' 5000 False None
                 deadlineOptions emptyWorld))) = [Some Normal]"
proof -
  have future: "dateNow (utcEnv 1000) (clockReads emptyWorld) < 5000"
    by code_simp
  have unused: "idb_get (randomUUID (utcEnv 1000) (uuidReads emptyWorld)) (db_notifications emptyWorld) = None"
    by code_simp
  have cats: "map category (db_notifications
         (snd (scheduleTaskReminder (Suc 0) (utcEnv 1000) ''t1'' ''water'' 5000 False None
                 deadlineOptions emptyWorld))) = [Some Deadline]"
    by code_simp
  have pris: "map priority (db_notifications
         (snd (scheduleTaskReminder (Suc 0) (utcEnv 1000) ''t1'' ''water'' 5000 False None
                 deadlineOptions emptyWorld))) = [Some Normal]"
    by code_simp
  from future unused have
    "\<exists>n \<in> set (db_notifications
                   (snd (scheduleTaskReminder (Suc 0) (utcEnv 1000) ''t1'' ''water'' 5000 False None
                           deadlineOptions emptyWorld))).
          id' n = randomUUID (utcEnv 1000) (uuidReads emptyWorld) \<and> scheduledTime n = 5000
          \<and> n \<notin> set (db_notifications emptyWorld) \<and> derivedFromDueDate deadlineOptions n"
    using scheduleTaskReminder_category_priority
      [of 0 "utcEnv 1000" "''t1''" "''water''" 5000 False None deadlineOptions emptyWorld]
    by (elim conjE impE) (rule conjI)
  with future unused cats pris show ?thesis
    by (intro conjI)
qed

subsection \<open>Stores with unique keys\<close>

lemma ids_idb_insert: "id' ` set (idb_insert r rs) = insert (id' r) (id' ` set rs)"
  by (simp add: set_idb_insert)

lemma distinct_idb_insert:
  "distinct (map id' rs) \<Longrightarrow> id' r \<notin> id' ` set rs \<Longrightarrow> distinct (map id' (idb_insert r rs))"
  by (induction rs) (auto simp: set_idb_insert)

lemma same_key_same_record:
  "distinct (map id' rs) \<Longrightarrow> r \<in> set rs \<Longrightarrow> r' \<in> set rs \<Longrightarrow> id' r' = id' r \<Longrightarrow> r' = r"
  by (meson distinct_map inj_on_def)

lemma idb_put_present:
  "idb_get (id' r) rs \<noteq> None \<Longrightarrow> idb_put r rs = map (\<lambda>m. if id' m = id' r then r else m) rs"
  by (auto simp: idb_put_def)

lemma ids_replace: "map id' (map (\<lambda>m. if id' m = id' r then r else m) rs) = map id' rs"
  by (induction rs) auto

lemma set_replace:
  "x \<in> set (map (\<lambda>m. if id' m = id' r then r else m) rs)
   \<Longrightarrow> x = r \<or> (x \<in> set rs \<and> id' x \<noteq> id' r)"
  by (induction rs) (auto split: if_splits)

lemma replaced_mem:
  "m \<in> set rs \<Longrightarrow> id' m = id' r \<Longrightarrow> r \<in> set (map (\<lambda>m. if id' m = id' r then r else m) rs)"
  by (induction rs) auto

lemma storeExtends_refl: "distinct (map id' rs) \<Longrightarrow> storeExtends rs rs"
  unfolding storeExtends_def keepsTriggered_def
  using same_key_same_record by blast

lemma storeExtends_trans:
  assumes "storeExtends rs rs'" and "storeExtends rs' rs''"
  shows "storeExtends rs rs''"
proof -
  have "keepsTriggered rs rs''"
    unfolding keepsTriggered_def
  proof (intro ballI impI)
    fix r r''
    assume r: "r \<in> set rs" and r'': "r'' \<in> set rs''" and t: "isTriggered r \<and> id' r'' = id' r"
    from r assms(1) obtain r' where r': "r' \<in> set rs'" "id' r' = id' r"
      unfolding storeExtends_def by (metis image_iff subsetD)
    with r t assms(1) have "isTriggered r'"
      unfolding storeExtends_def keepsTriggered_def by blast
    with r' r'' t assms(2) show "isTriggered r''"
      unfolding storeExtends_def keepsTriggered_def by (metis (no_types, lifting))
  qed
  with assms show ?thesis
    unfolding storeExtends_def by blast
qed

lemma untouchedOrTriggered_refl: "untouchedOrTriggered rs rs"
  by (simp add: untouchedOrTriggered_def)

lemma untouchedOrTriggered_trans:
  assumes "untouchedOrTriggered rs rs'" and "untouchedOrTriggered rs' rs''"
    and "id' ` set rs \<subseteq> id' ` set rs'"
  shows "untouchedOrTriggered rs rs''"
  using assms unfolding untouchedOrTriggered_def by blast

lemma storeExtends_insert:
  assumes "distinct (map id' rs)" and "id' n \<notin> id' ` set rs"
  shows "storeExtends rs (idb_insert n rs)" and "untouchedOrTriggered rs (idb_insert n rs)"
proof -
  have "keepsTriggered rs (idb_insert n rs)"
    unfolding keepsTriggered_def
  proof (intro ballI impI)
    fix r r'
    assume r: "r \<in> set rs" and r': "r' \<in> set (idb_insert n rs)"
      and t: "isTriggered r \<and> id' r' = id' r"
    from r t assms(2) have "r' \<noteq> n" by force
    with r' have "r' \<in> set rs" by (simp add: set_idb_insert)
    with assms(1) r t have "r' = r" by (simp add: same_key_same_record)
    with t show "isTriggered r'" by simp
  qed
  with assms show "storeExtends rs (idb_insert n rs)"
    unfolding storeExtends_def by (auto simp: distinct_idb_insert set_idb_insert)
  show "untouchedOrTriggered rs (idb_insert n rs)"
    unfolding untouchedOrTriggered_def using assms(2) by (auto simp: set_idb_insert)
qed

lemma storeExtends_put:
  assumes "distinct (map id' rs)" and "m \<in> set rs" and "id' r = id' m"
    and "isTriggered m \<longrightarrow> isTriggered r"
  shows "storeExtends rs (idb_put r rs)"
proof -
  from assms(2,3) have "idb_get (id' r) rs \<noteq> None"
    by (auto simp: idb_get_None_iff)
  then have put: "idb_put r rs = map (\<lambda>m. if id' m = id' r then r else m) rs"
    by (rule idb_put_present)
  have "keepsTriggered rs (idb_put r rs)"
    unfolding keepsTriggered_def
  proof (intro ballI impI)
    fix a a'
    assume a: "a \<in> set rs" and a': "a' \<in> set (idb_put r rs)"
      and t: "isTriggered a \<and> id' a' = id' a"
    from a' put have "a' = r \<or> (a' \<in> set rs \<and> id' a' \<noteq> id' r)"
      using set_replace by simp
    then show "isTriggered a'"
    proof
      assume "a' = r"
      with t assms(3) have "id' a = id' m" by simp
      with assms(1,2) a have "a = m" by (simp add: same_key_same_record)
      with t assms(4) \<open>a' = r\<close> show ?thesis by simp
    next
      assume "a' \<in> set rs \<and> id' a' \<noteq> id' r"
      with assms(1) a t have "a' = a" by (simp add: same_key_same_record)
      with t show ?thesis by simp
    qed
  qed
  moreover have "map id' (idb_put r rs) = map id' rs"
    using put by (simp only: ids_replace)
  moreover from this have "id' ` set (idb_put r rs) = id' ` set rs"
    by (metis list.set_map)
  ultimately show ?thesis
    using assms(1) unfolding storeExtends_def by simp
qed

lemma untouchedOrTriggered_put:
  assumes "m \<in> set rs" and "id' r = id' m" and "isTriggered r"
  shows "untouchedOrTriggered rs (idb_put r rs)"
proof -
  from assms(1,2) have "idb_get (id' r) rs \<noteq> None"
    by (auto simp: idb_get_None_iff)
  then have put: "idb_put r rs = map (\<lambda>m. if id' m = id' r then r else m) rs"
    by (rule idb_put_present)
  show ?thesis
    unfolding untouchedOrTriggered_def
  proof
    fix a'
    assume "a' \<in> set (idb_put r rs)"
    with put have "a' = r \<or> (a' \<in> set rs \<and> id' a' \<noteq> id' r)"
      using set_replace by simp
    with assms(3) show "a' \<in> set rs \<or> isTriggered a' \<or> id' a' \<notin> id' ` set rs"
      by blast
  qed
qed


subsection \<open>What the operations do to the store\<close>

lemma scheduleNotification_extends:
  assumes "distinct (map id' (db_notifications w))"
  shows "storeExtends (db_notifications w)
           (db_notifications (snd (scheduleNotification env taskId' title' body' t options w)))"
    and "untouchedOrTriggered (db_notifications w)
           (db_notifications (snd (scheduleNotification env taskId' title' body' t options w)))"
proof -
  obtain r w' where sn: "scheduleNotification env taskId' title' body' t options w = (r, w')"
    by (rule prod.exhaust)
  have "storeExtends (db_notifications w) (db_notifications w')
        \<and> untouchedOrTriggered (db_notifications w) (db_notifications w')"
  proof (cases r)
    case (Inl e)
    with sn have "db_notifications w' = db_notifications w"
      by (simp add: scheduleNotification_Inl(1))
    with assms show ?thesis
      by (simp add: storeExtends_refl untouchedOrTriggered_refl)
  next
    case (Inr n)
    with sn have created: "scheduleNotification env taskId' title' body' t options w = (Inr n, w')"
      by simp
    have "id' n \<notin> id' ` set (db_notifications w)"
      using scheduleNotification_Inr(13) [OF created] by (simp add: idb_get_None_iff)
    with assms show ?thesis
      using scheduleNotification_Inr(18) [OF created]
      by (simp add: storeExtends_insert)
  qed
  with sn show "storeExtends (db_notifications w)
           (db_notifications (snd (scheduleNotification env taskId' title' body' t options w)))"
    and "untouchedOrTriggered (db_notifications w)
           (db_notifications (snd (scheduleNotification env taskId' title' body' t options w)))"
    by simp_all
qed

lemma scheduleRecurringNotification_extends:
  assumes "distinct (map id' (db_notifications w))"
  shows "storeExtends (db_notifications w)
           (db_notifications (snd (scheduleRecurringNotification env n w)))"
    and "untouchedOrTriggered (db_notifications w)
           (db_notifications (snd (scheduleRecurringNotification env n w)))"
proof -
  have "storeExtends (db_notifications w)
           (db_notifications (snd (scheduleRecurringNotification env n w)))
        \<and> untouchedOrTriggered (db_notifications w)
           (db_notifications (snd (scheduleRecurringNotification env n w)))"
  proof (cases "recurringPattern n")
    case None
    with assms show ?thesis
      by (simp add: scheduleRecurringNotification_def storeExtends_refl untouchedOrTriggered_refl)
  next
    case (Some pattern)
    obtain r w' where sn:
      "scheduleNotification env (taskId n) (title n) (body n)
         (nextOccurrence env pattern (anchorTime n))
         \<lparr> opt_priority = priority n, opt_category = category n, opt_taskDueDate = taskDueDate n,
           opt_isRecurring = Some True, opt_recurringPattern = Some pattern \<rparr> w = (r, w')"
      by (rule prod.exhaust)
    with Some have "snd (scheduleRecurringNotification env n w) = w'"
      by (cases r) (simp_all add: scheduleRecurringNotification_def)
    moreover from sn have "w' = snd (scheduleNotification env (taskId n) (title n) (body n)
         (nextOccurrence env pattern (anchorTime n))
         \<lparr> opt_priority = priority n, opt_category = category n, opt_taskDueDate = taskDueDate n,
           opt_isRecurring = Some True, opt_recurringPattern = Some pattern \<rparr> w)"
      by simp
    ultimately show ?thesis
      using scheduleNotification_extends [OF assms] by simp
  qed
  then show "storeExtends (db_notifications w)
           (db_notifications (snd (scheduleRecurringNotification env n w)))"
    and "untouchedOrTriggered (db_notifications w)
           (db_notifications (snd (scheduleRecurringNotification env n w)))"
    by simp_all
qed

lemma markNotificationTriggered_Inr:
  assumes "markNotificationTriggered key w = (Inr u, w')"
  obtains m where "m \<in> set (db_notifications w)" and "id' m = key"
    and "db_notifications w' = idb_put (m\<lparr>isTriggered := True\<rparr>) (db_notifications w)"
    and "clockReads w' = clockReads w" and "uuidReads w' = uuidReads w"
    and "shown w' = shown w" and "db_tasks w' = db_tasks w"
proof (cases "idb_get key (db_notifications w)")
  case None
  with assms show ?thesis by (simp add: markNotificationTriggered_def)
next
  case (Some m)
  then have "m \<in> set (db_notifications w)" and "id' m = key"
    by (simp_all add: idb_get_Some_mem)
  moreover from Some assms have
    w': "w' = w\<lparr>db_notifications := idb_put (m\<lparr>isTriggered := True\<rparr>) (db_notifications w)\<rparr>"
    by (simp add: markNotificationTriggered_def)
  ultimately show ?thesis
    by (intro that [of m]) (simp_all add: w')
qed

lemma markNotificationTriggered_Inl:
  "markNotificationTriggered key w = (Inl e, w') \<Longrightarrow> w' = w"
  by (cases "idb_get key (db_notifications w)") (simp_all add: markNotificationTriggered_def)

lemma markNotificationTriggered_extends:
  assumes "distinct (map id' (db_notifications w))"
  shows "storeExtends (db_notifications w) (db_notifications (snd (markNotificationTriggered key w)))"
    and "untouchedOrTriggered (db_notifications w)
           (db_notifications (snd (markNotificationTriggered key w)))"
proof -
  obtain r w' where mk: "markNotificationTriggered key w = (r, w')"
    by (rule prod.exhaust)
  have "storeExtends (db_notifications w) (db_notifications w')
        \<and> untouchedOrTriggered (db_notifications w) (db_notifications w')"
  proof (cases r)
    case (Inl e)
    with mk have "w' = w" by (simp add: markNotificationTriggered_Inl)
    with assms show ?thesis
      by (simp add: storeExtends_refl untouchedOrTriggered_refl)
  next
    case (Inr u)
    with mk have "markNotificationTriggered key w = (Inr u, w')" by simp
    then obtain m where m: "m \<in> set (db_notifications w)" "id' m = key"
      and put: "db_notifications w' = idb_put (m\<lparr>isTriggered := True\<rparr>) (db_notifications w)"
      by (rule markNotificationTriggered_Inr)
    have "storeExtends (db_notifications w) (idb_put (m\<lparr>isTriggered := True\<rparr>) (db_notifications w))"
      using assms m(1) by (rule storeExtends_put) simp_all
    moreover have "untouchedOrTriggered (db_notifications w)
        (idb_put (m\<lparr>isTriggered := True\<rparr>) (db_notifications w))"
      using m(1) by (rule untouchedOrTriggered_put) simp_all
    ultimately show ?thesis using put by simp
  qed
  with mk show "storeExtends (db_notifications w) (db_notifications (snd (markNotificationTriggered key w)))"
    and "untouchedOrTriggered (db_notifications w)
           (db_notifications (snd (markNotificationTriggered key w)))"
    by simp_all
qed

lemma markNotificationTriggered_marks:
  assumes "markNotificationTriggered key w = (Inr u, w')"
  shows "\<exists>r \<in> set (db_notifications w'). id' r = key \<and> isTriggered r"
proof -
  from assms obtain m where m: "m \<in> set (db_notifications w)" "id' m = key"
    and put: "db_notifications w' = idb_put (m\<lparr>isTriggered := True\<rparr>) (db_notifications w)"
    by (rule markNotificationTriggered_Inr)
  from m have "idb_get (id' (m\<lparr>isTriggered := True\<rparr>)) (db_notifications w) \<noteq> None"
    by (auto simp: idb_get_None_iff)
  then have "idb_put (m\<lparr>isTriggered := True\<rparr>) (db_notifications w)
      = map (\<lambda>x. if id' x = id' (m\<lparr>isTriggered := True\<rparr>) then m\<lparr>isTriggered := True\<rparr> else x)
          (db_notifications w)"
    by (rule idb_put_present)
  moreover have "m\<lparr>isTriggered := True\<rparr>
      \<in> set (map (\<lambda>x. if id' x = id' (m\<lparr>isTriggered := True\<rparr>) then m\<lparr>isTriggered := True\<rparr> else x)
          (db_notifications w))"
    using m(1) by (rule replaced_mem) simp
  ultimately have "m\<lparr>isTriggered := True\<rparr> \<in> set (db_notifications w')"
    using put by simp
  moreover have "id' (m\<lparr>isTriggered := True\<rparr>) = key" "isTriggered (m\<lparr>isTriggered := True\<rparr>)"
    using m(2) by simp_all
  ultimately show ?thesis by blast
qed

subsection \<open>The evaluator pass\<close>

lemma extends_then:
  assumes "storeExtends a b \<and> untouchedOrTriggered a b"
    and "storeExtends b c \<and> untouchedOrTriggered b c"
  shows "storeExtends a c \<and> untouchedOrTriggered a c"
proof
  from assms show "storeExtends a c"
    using storeExtends_trans by blast
  from assms have "id' ` set a \<subseteq> id' ` set b"
    by (simp add: storeExtends_def)
  with assms show "untouchedOrTriggered a c"
    using untouchedOrTriggered_trans by blast
qed

lemma storeExtends_triggered:
  assumes "r \<in> set rs" and "isTriggered r" and "storeExtends rs rs'"
  shows "\<exists>r' \<in> set rs'. id' r' = id' r \<and> isTriggered r'"
proof -
  from assms(1,3) obtain r' where r': "r' \<in> set rs'" "id' r' = id' r"
    unfolding storeExtends_def by (metis image_iff subsetD)
  with assms have "isTriggered r'"
    unfolding storeExtends_def keepsTriggered_def by blast
  with r' show ?thesis by blast
qed

lemma triggerMembers_extends:
  "distinct (map id' (db_notifications w)) \<Longrightarrow>
   storeExtends (db_notifications w) (db_notifications (snd (triggerMembers env ns w)))
   \<and> untouchedOrTriggered (db_notifications w) (db_notifications (snd (triggerMembers env ns w)))"
proof (induction ns arbitrary: w)
  case Nil
  then show ?case
    by (simp add: storeExtends_refl untouchedOrTriggered_refl)
next
  case (Cons n ns)
  obtain r1 w1 where mk: "markNotificationTriggered (id' n) w = (r1, w1)"
    by (rule prod.exhaust)
  have e1: "storeExtends (db_notifications w) (db_notifications w1)
            \<and> untouchedOrTriggered (db_notifications w) (db_notifications w1)"
    using markNotificationTriggered_extends [OF Cons.prems, of "id' n"] mk by simp
  then have d1: "distinct (map id' (db_notifications w1))"
    by (simp add: storeExtends_def)
  show ?case
  proof (cases r1)
    case (Inl e)
    with mk e1 show ?thesis by simp
  next
    case (Inr u)
    show ?thesis
    proof (cases "recursAfterDelivery n")
      case False
      with mk Inr have step: "triggerMembers env (n # ns) w = triggerMembers env ns w1"
        by simp
      from e1 Cons.IH [OF d1] have
        "storeExtends (db_notifications w) (db_notifications (snd (triggerMembers env ns w1)))
         \<and> untouchedOrTriggered (db_notifications w) (db_notifications (snd (triggerMembers env ns w1)))"
        by (rule extends_then)
      with step show ?thesis by simp
    next
      case True
      obtain r2 w2 where sr: "scheduleRecurringNotification env n w1 = (r2, w2)"
        by (rule prod.exhaust)
      have e2: "storeExtends (db_notifications w1) (db_notifications w2)
                \<and> untouchedOrTriggered (db_notifications w1) (db_notifications w2)"
        using scheduleRecurringNotification_extends [OF d1, of env n] sr by simp
      with e1 have e12: "storeExtends (db_notifications w) (db_notifications w2)
                \<and> untouchedOrTriggered (db_notifications w) (db_notifications w2)"
        by (rule extends_then)
      then have d2: "distinct (map id' (db_notifications w2))"
        by (simp add: storeExtends_def)
      show ?thesis
      proof (cases r2)
        case (Inl e)
        with mk Inr True sr e12 show ?thesis by simp
      next
        case (Inr created)
        with mk \<open>r1 = Inr u\<close> True sr
        have step: "triggerMembers env (n # ns) w = triggerMembers env ns w2"
          by simp
        from e12 Cons.IH [OF d2] have
          "storeExtends (db_notifications w) (db_notifications (snd (triggerMembers env ns w2)))
           \<and> untouchedOrTriggered (db_notifications w) (db_notifications (snd (triggerMembers env ns w2)))"
          by (rule extends_then)
        with step show ?thesis by simp
      qed
    qed
  qed
qed

text \<open>How one round of the inner loop went, when the loop ran to its end.\<close>

lemma triggerMembers_Cons_Inr:
  assumes "triggerMembers env (n # ns) w = (Inr u, w')"
  obtains u1 w1 wX where "markNotificationTriggered (id' n) w = (Inr u1, w1)"
    and "wX = w1 \<or> wX = snd (scheduleRecurringNotification env n w1)"
    and "triggerMembers env ns wX = (Inr u, w')"
proof -
  obtain r1 w1 where mk: "markNotificationTriggered (id' n) w = (r1, w1)"
    by (rule prod.exhaust)
  with assms obtain u1 where r1: "r1 = Inr u1"
    by (cases r1) simp_all
  show ?thesis
  proof (cases "recursAfterDelivery n")
    case False
    with assms mk r1 have "triggerMembers env ns w1 = (Inr u, w')" by simp
    with mk r1 show ?thesis by (intro that [of u1 w1 w1]) simp_all
  next
    case True
    obtain r2 w2 where sr: "scheduleRecurringNotification env n w1 = (r2, w2)"
      by (rule prod.exhaust)
    with assms mk r1 True have "triggerMembers env ns w2 = (Inr u, w')"
      by (cases r2) simp_all
    with mk r1 sr show ?thesis by (intro that [of u1 w1 w2]) simp_all
  qed
qed

lemma triggerMembers_marks:
  assumes "distinct (map id' (db_notifications w))"
    and "triggerMembers env ns w = (Inr u, w')"
    and "n \<in> set ns"
  shows "\<exists>r \<in> set (db_notifications w'). id' r = id' n \<and> isTriggered r"
  using assms
proof (induction ns arbitrary: w)
  case Nil
  then show ?case by simp
next
  case (Cons a ns)
  from Cons.prems(2) obtain u1 w1 wX where
    mk: "markNotificationTriggered (id' a) w = (Inr u1, w1)"
    and wX: "wX = w1 \<or> wX = snd (scheduleRecurringNotification env a w1)"
    and rest: "triggerMembers env ns wX = (Inr u, w')"
    by (rule triggerMembers_Cons_Inr)
  have e1: "storeExtends (db_notifications w) (db_notifications w1)"
    using markNotificationTriggered_extends(1) [OF Cons.prems(1), of "id' a"] mk by simp
  then have d1: "distinct (map id' (db_notifications w1))"
    by (simp add: storeExtends_def)
  from wX have eX: "storeExtends (db_notifications w1) (db_notifications wX)"
  proof
    assume "wX = w1"
    with d1 show ?thesis by (simp add: storeExtends_refl)
  next
    assume "wX = snd (scheduleRecurringNotification env a w1)"
    then show ?thesis
      using scheduleRecurringNotification_extends(1) [OF d1, of env a] by simp
  qed
  then have dX: "distinct (map id' (db_notifications wX))"
    by (simp add: storeExtends_def)
  show ?case
  proof (cases "n = a")
    case True
    from mk obtain r where r: "r \<in> set (db_notifications w1)" "id' r = id' a" "isTriggered r"
      using markNotificationTriggered_marks by blast
    have "storeExtends (db_notifications wX) (db_notifications w')"
      using triggerMembers_extends [OF dX, of env ns] rest by simp
    with eX have "storeExtends (db_notifications w1) (db_notifications w')"
      by (rule storeExtends_trans)
    with r(1,3) have "\<exists>r' \<in> set (db_notifications w'). id' r' = id' r \<and> isTriggered r'"
      by (rule storeExtends_triggered)
    with r(2) True show ?thesis by simp
  next
    case False
    with Cons.prems(3) have "n \<in> set ns" by simp
    with dX rest show ?thesis
      by (rule Cons.IH)
  qed
qed

lemma showNotification_db [simp]:
  "db_notifications (showNotification p w) = db_notifications w"
  by (simp add: showNotification_def)

lemma triggerGroups_extends:
  "distinct (map id' (db_notifications w)) \<Longrightarrow>
   storeExtends (db_notifications w) (db_notifications (snd (triggerGroups env gs w)))
   \<and> untouchedOrTriggered (db_notifications w) (db_notifications (snd (triggerGroups env gs w)))"
proof (induction gs arbitrary: w)
  case Nil
  then show ?case
    by (simp add: storeExtends_refl untouchedOrTriggered_refl)
next
  case (Cons g gs)
  obtain r1 w1 where tm: "triggerMembers env g (showNotification (presentGroup g) w) = (r1, w1)"
    by (rule prod.exhaust)
  have "distinct (map id' (db_notifications (showNotification (presentGroup g) w)))"
    using Cons.prems by simp
  from triggerMembers_extends [OF this, of env g] tm
  have e1: "storeExtends (db_notifications w) (db_notifications w1)
            \<and> untouchedOrTriggered (db_notifications w) (db_notifications w1)"
    by simp
  then have d1: "distinct (map id' (db_notifications w1))"
    by (simp add: storeExtends_def)
  show ?case
  proof (cases r1)
    case (Inl e)
    with tm e1 show ?thesis by simp
  next
    case (Inr u)
    with tm have step: "triggerGroups env (g # gs) w = triggerGroups env gs w1" by simp
    from e1 Cons.IH [OF d1] have
      "storeExtends (db_notifications w) (db_notifications (snd (triggerGroups env gs w1)))
       \<and> untouchedOrTriggered (db_notifications w) (db_notifications (snd (triggerGroups env gs w1)))"
      by (rule extends_then)
    with step show ?thesis by simp
  qed
qed

lemma triggerGroups_marks:
  assumes "distinct (map id' (db_notifications w))"
    and "triggerGroups env gs w = (Inr u, w')"
    and "n \<in> set (concat gs)"
  shows "\<exists>r \<in> set (db_notifications w'). id' r = id' n \<and> isTriggered r"
  using assms
proof (induction gs arbitrary: w)
  case Nil
  then show ?case by simp
next
  case (Cons g gs)
  obtain r1 w1 where tm: "triggerMembers env g (showNotification (presentGroup g) w) = (r1, w1)"
    by (rule prod.exhaust)
  with Cons.prems(2) obtain u1 where r1: "r1 = Inr u1"
    by (cases r1) simp_all
  with tm Cons.prems(2) have rest: "triggerGroups env gs w1 = (Inr u, w')"
    by simp
  have d0: "distinct (map id' (db_notifications (showNotification (presentGroup g) w)))"
    using Cons.prems(1) by simp
  have "storeExtends (db_notifications w) (db_notifications w1)"
    using triggerMembers_extends [OF d0, of env g] tm by simp
  then have d1: "distinct (map id' (db_notifications w1))"
    by (simp add: storeExtends_def)
  show ?case
  proof (cases "n \<in> set g")
    case True
    from tm r1 have "triggerMembers env g (showNotification (presentGroup g) w) = (Inr u1, w1)"
      by simp
    with d0 obtain r where r: "r \<in> set (db_notifications w1)" "id' r = id' n" "isTriggered r"
      using True triggerMembers_marks by blast
    have "storeExtends (db_notifications w1) (db_notifications w')"
      using triggerGroups_extends [OF d1, of env gs] rest by simp
    with r(1,3) have "\<exists>r' \<in> set (db_notifications w'). id' r' = id' r \<and> isTriggered r'"
      by (rule storeExtends_triggered)
    with r(2) show ?thesis by simp
  next
    case False
    with Cons.prems(3) have "n \<in> set (concat gs)" by simp
    with d1 rest show ?thesis
      by (rule Cons.IH)
  qed
qed

lemma evaluatorPass_cases:
  obtains (idle) "filter (isDue (dateNow env (clockReads w))) (db_notifications w) = []"
      and "evaluatorPass env w = (Inr (), w\<lparr>clockReads := Suc (clockReads w)\<rparr>)"
  | (busy) "filter (isDue (dateNow env (clockReads w))) (db_notifications w) \<noteq> []"
      and "evaluatorPass env w =
             triggerGroups env
               (groupNotificationsByTimeAndPriority
                  (filter (isDue (dateNow env (clockReads w))) (db_notifications w)) 180000)
               (w\<lparr>clockReads := Suc (clockReads w)\<rparr>)"
proof (cases "filter (isDue (dateNow env (clockReads w))) (db_notifications w) = []")
  case True
  then have "evaluatorPass env w = (Inr (), w\<lparr>clockReads := Suc (clockReads w)\<rparr>)"
    by (simp add: evaluatorPass_def getScheduledNotifications_def Let_def)
  with True show ?thesis by (rule idle)
next
  case False
  then have "evaluatorPass env w =
             triggerGroups env
               (groupNotificationsByTimeAndPriority
                  (filter (isDue (dateNow env (clockReads w))) (db_notifications w)) 180000)
               (w\<lparr>clockReads := Suc (clockReads w)\<rparr>)"
    by (simp add: evaluatorPass_def getScheduledNotifications_def Let_def)
  with False show ?thesis by (rule busy)
qed

lemma evaluatorPass_extends:
  assumes "distinct (map id' (db_notifications w))"
  shows "storeExtends (db_notifications w) (db_notifications (snd (evaluatorPass env w)))
   \<and> untouchedOrTriggered (db_notifications w) (db_notifications (snd (evaluatorPass env w)))"
proof (cases rule: evaluatorPass_cases [of env w])
  case idle
  with assms show ?thesis
    by (simp add: storeExtends_refl untouchedOrTriggered_refl)
next
  case busy
  have "distinct (map id' (db_notifications (w\<lparr>clockReads := Suc (clockReads w)\<rparr>)))"
    using assms by simp
  from triggerGroups_extends [OF this] busy(2) show ?thesis
    by simp
qed

lemma set_groups:
  "set (concat (groupNotificationsByTimeAndPriority ns window)) = set ns"
proof -
  have "mset (concat (groupNotificationsByTimeAndPriority ns window)) = mset ns"
    by (simp add: group_is_greedy concat_greedyWindows mset_sortBy)
  then show ?thesis by (rule mset_eq_setD)
qed

lemma evaluatorPass_triggers_due:
  assumes "distinct (map id' (db_notifications w))"
    and "evaluatorPass env w = (Inr u, w')"
    and "n \<in> set (db_notifications w)" and "isDue (dateNow env (clockReads w)) n"
  shows "\<exists>r \<in> set (db_notifications w'). id' r = id' n \<and> isTriggered r"
proof (cases rule: evaluatorPass_cases [of env w])
  case idle
  with assms(3,4) show ?thesis
    by (auto simp: filter_empty_conv)
next
  case busy
  have d: "distinct (map id' (db_notifications (w\<lparr>clockReads := Suc (clockReads w)\<rparr>)))"
    using assms(1) by simp
  from busy(2) assms(2) have run:
    "triggerGroups env
       (groupNotificationsByTimeAndPriority
          (filter (isDue (dateNow env (clockReads w))) (db_notifications w)) 180000)
       (w\<lparr>clockReads := Suc (clockReads w)\<rparr>) = (Inr u, w')"
    by simp
  have "n \<in> set (filter (isDue (dateNow env (clockReads w))) (db_notifications w))"
    using assms(3,4) by simp
  then have "n \<in> set (concat (groupNotificationsByTimeAndPriority
          (filter (isDue (dateNow env (clockReads w))) (db_notifications w)) 180000))"
    by (simp only: set_groups)
  with d run show ?thesis
    by (rule triggerGroups_marks)
qed

lemma second_pass_finds_new_records_only:
  assumes unique: "distinct (map id' (db_notifications w))"
    and completes: "fst (evaluatorPass env w) = Inr ()"
    and no_time: "dateNow env (clockReads (checkAndTriggerNotifications env w)) = dateNow env (clockReads w)"
    and due: "n \<in> set (dueNow env (checkAndTriggerNotifications env w))"
  shows "id' n \<notin> id' ` set (db_notifications w)"
proof
  assume old: "id' n \<in> id' ` set (db_notifications w)"
  define w' where "w' = checkAndTriggerNotifications env w"
  from completes have run: "evaluatorPass env w = (Inr (), w')"
    by (simp add: w'_def checkAndTriggerNotifications_def prod_eq_iff)
  from due no_time have n: "n \<in> set (db_notifications w')"
    and n_due: "isDue (dateNow env (clockReads w)) n"
    by (simp_all add: dueNow_def getScheduledNotifications_def w'_def)
  have ext: "storeExtends (db_notifications w) (db_notifications w')"
    and frame: "untouchedOrTriggered (db_notifications w) (db_notifications w')"
    using evaluatorPass_extends [OF unique, of env] run by simp_all
  from frame n old n_due have "n \<in> set (db_notifications w)"
    unfolding untouchedOrTriggered_def isDue_def by blast
  with unique run n_due obtain r where
    r: "r \<in> set (db_notifications w')" "id' r = id' n" "isTriggered r"
    using evaluatorPass_triggers_due by blast
  from ext have "distinct (map id' (db_notifications w'))"
    by (simp add: storeExtends_def)
  with n r(1,2) have "r = n"
    by (simp add: same_key_same_record)
  with r(3) n_due show False
    by (simp add: isDue_def)
qed

subsection \<open>A pass that delivers no recurring notification\<close>

lemma ids_replace_key:
  "id' r = key \<Longrightarrow> map id' (map (\<lambda>x. if id' x = key then r else x) rs) = map id' rs"
  by (induction rs) auto

lemma markNotificationTriggered_present:
  assumes "key \<in> id' ` set (db_notifications w)"
  obtains w' where "markNotificationTriggered key w = (Inr (), w')"
    and "map id' (db_notifications w') = map id' (db_notifications w)"
    and "shown w' = shown w" and "clockReads w' = clockReads w"
proof -
  from assms obtain m where m: "idb_get key (db_notifications w) = Some m"
    by (cases "idb_get key (db_notifications w)") (auto simp: idb_get_None_iff)
  then have mem: "m \<in> set (db_notifications w)" "id' m = key"
    by (simp_all add: idb_get_Some_mem)
  define w' where "w' = w\<lparr>db_notifications := idb_put (m\<lparr>isTriggered := True\<rparr>) (db_notifications w)\<rparr>"
  from m have run: "markNotificationTriggered key w = (Inr (), w')"
    by (simp add: markNotificationTriggered_def w'_def)
  from m mem have "idb_get (id' (m\<lparr>isTriggered := True\<rparr>)) (db_notifications w) \<noteq> None"
    by simp
  then have "idb_put (m\<lparr>isTriggered := True\<rparr>) (db_notifications w)
      = map (\<lambda>x. if id' x = id' (m\<lparr>isTriggered := True\<rparr>) then m\<lparr>isTriggered := True\<rparr> else x)
          (db_notifications w)"
    by (rule idb_put_present)
  then have "map id' (db_notifications w') = map id' (db_notifications w)"
    by (simp add: w'_def ids_replace_key)
  with run show ?thesis
    by (rule that) (simp_all add: w'_def)
qed

lemma triggerMembers_plain:
  assumes "list_all (\<lambda>n. \<not> recursAfterDelivery n) ns"
    and "id' ` set ns \<subseteq> id' ` set (db_notifications w)"
  shows "\<exists>w'. triggerMembers env ns w = (Inr (), w')
           \<and> map id' (db_notifications w') = map id' (db_notifications w)
           \<and> clockReads w' = clockReads w \<and> shown w' = shown w"
  using assms
proof (induction ns arbitrary: w)
  case Nil
  then show ?case by simp
next
  case (Cons n ns)
  from Cons.prems(2) have "id' n \<in> id' ` set (db_notifications w)" by simp
  then obtain w1 where mk: "markNotificationTriggered (id' n) w = (Inr (), w1)"
    and ids: "map id' (db_notifications w1) = map id' (db_notifications w)"
    and same: "shown w1 = shown w" "clockReads w1 = clockReads w"
    by (rule markNotificationTriggered_present)
  from ids have "id' ` set (db_notifications w1) = id' ` set (db_notifications w)"
    by (metis list.set_map)
  with Cons.prems have "list_all (\<lambda>n. \<not> recursAfterDelivery n) ns"
    and "id' ` set ns \<subseteq> id' ` set (db_notifications w1)"
    by simp_all
  then obtain w' where "triggerMembers env ns w1 = (Inr (), w')"
    and "map id' (db_notifications w') = map id' (db_notifications w1)"
    and "clockReads w' = clockReads w1" and "shown w' = shown w1"
    using Cons.IH by blast
  with mk ids same Cons.prems(1) show ?case
    by simp
qed

lemma triggerGroups_plain:
  assumes "list_all (\<lambda>n. \<not> recursAfterDelivery n) (concat gs)"
    and "id' ` set (concat gs) \<subseteq> id' ` set (db_notifications w)"
  shows "\<exists>w'. triggerGroups env gs w = (Inr (), w')
           \<and> map id' (db_notifications w') = map id' (db_notifications w)
           \<and> clockReads w' = clockReads w"
  using assms
proof (induction gs arbitrary: w)
  case Nil
  then show ?case by simp
next
  case (Cons g gs)
  from Cons.prems have "list_all (\<lambda>n. \<not> recursAfterDelivery n) g"
    and "id' ` set g \<subseteq> id' ` set (db_notifications (showNotification (presentGroup g) w))"
    by auto
  then obtain w1 where tm: "triggerMembers env g (showNotification (presentGroup g) w) = (Inr (), w1)"
    and ids: "map id' (db_notifications w1) = map id' (db_notifications (showNotification (presentGroup g) w))"
    and clock: "clockReads w1 = clockReads (showNotification (presentGroup g) w)"
    using triggerMembers_plain by blast
  from ids have ids': "map id' (db_notifications w1) = map id' (db_notifications w)"
    by simp
  then have "id' ` set (db_notifications w1) = id' ` set (db_notifications w)"
    by (metis list.set_map)
  with Cons.prems have "list_all (\<lambda>n. \<not> recursAfterDelivery n) (concat gs)"
    and "id' ` set (concat gs) \<subseteq> id' ` set (db_notifications w1)"
    by auto
  then obtain w' where "triggerGroups env gs w1 = (Inr (), w')"
    and "map id' (db_notifications w') = map id' (db_notifications w1)"
    and "clockReads w' = clockReads w1"
    using Cons.IH by blast
  with tm ids' clock show ?case
    by (simp add: showNotification_def)
qed

lemma evaluatorPass_plain:
  assumes "list_all (\<lambda>n. \<not> recursAfterDelivery n) (dueNow env w)"
  shows "fst (evaluatorPass env w) = Inr ()"
    and "map id' (db_notifications (snd (evaluatorPass env w))) = map id' (db_notifications w)"
proof -
  have "fst (evaluatorPass env w) = Inr ()
        \<and> map id' (db_notifications (snd (evaluatorPass env w))) = map id' (db_notifications w)"
  proof (cases rule: evaluatorPass_cases [of env w])
    case idle
    then show ?thesis by simp
  next
    case busy
    let ?due = "filter (isDue (dateNow env (clockReads w))) (db_notifications w)"
    let ?gs = "groupNotificationsByTimeAndPriority ?due 180000"
    have members: "set (concat ?gs) = set ?due"
      by (rule set_groups)
    from assms have "list_all (\<lambda>n. \<not> recursAfterDelivery n) (concat ?gs)"
      using members by (simp add: list_all_iff dueNow_def getScheduledNotifications_def)
    moreover have "id' ` set (concat ?gs)
        \<subseteq> id' ` set (db_notifications (w\<lparr>clockReads := Suc (clockReads w)\<rparr>))"
      using members by auto
    ultimately obtain w' where
      "triggerGroups env ?gs (w\<lparr>clockReads := Suc (clockReads w)\<rparr>) = (Inr (), w')"
      and "map id' (db_notifications w')
             = map id' (db_notifications (w\<lparr>clockReads := Suc (clockReads w)\<rparr>))"
      using triggerGroups_plain by blast
    with busy(2) show ?thesis by simp
  qed
  then show "fst (evaluatorPass env w) = Inr ()"
    and "map id' (db_notifications (snd (evaluatorPass env w))) = map id' (db_notifications w)"
    by simp_all
qed

text \<open>
  Claim C4, as the code has it. Two passes in immediate succession, the clock reading of
  the second equal to that of the first, on a store with unique keys: when the first pass
  ran to its end, every record the second pass finds due and untriggered has an
  identifier that was not in the store before the first pass (it is a follow-up that the
  recurrence step of the first pass created), so no notification is presented twice; and
  when no notification due at the first pass is recurring, the second pass finds no
  record due and untriggered and presents nothing.
\<close>

theorem second_pass_presents_nothing_old:
  "distinct (map id' (db_notifications w))
   \<and> dateNow env (clockReads (checkAndTriggerNotifications env w)) = dateNow env (clockReads w)
   \<longrightarrow>
     (fst (evaluatorPass env w) = Inr ()
        \<longrightarrow> (\<forall>n \<in> set (dueNow env (checkAndTriggerNotifications env w)).
               id' n \<notin> id' ` set (db_notifications w)))
     \<and> (\<not> list_ex recursAfterDelivery (dueNow env w)
        \<longrightarrow> dueNow env (checkAndTriggerNotifications env w) = []
            \<and> shown (checkAndTriggerNotifications env (checkAndTriggerNotifications env w))
                = shown (checkAndTriggerNotifications env w))"
proof (intro impI conjI ballI)
  fix n
  assume "distinct (map id' (db_notifications w))
   \<and> dateNow env (clockReads (checkAndTriggerNotifications env w)) = dateNow env (clockReads w)"
    and "fst (evaluatorPass env w) = Inr ()"
    and "n \<in> set (dueNow env (checkAndTriggerNotifications env w))"
  then show "id' n \<notin> id' ` set (db_notifications w)"
    using second_pass_finds_new_records_only [of w env n] by simp
next
  assume h: "distinct (map id' (db_notifications w))
   \<and> dateNow env (clockReads (checkAndTriggerNotifications env w)) = dateNow env (clockReads w)"
    and plain: "\<not> list_ex recursAfterDelivery (dueNow env w)"
  from plain have plain': "list_all (\<lambda>n. \<not> recursAfterDelivery n) (dueNow env w)"
    by (simp add: list_ex_iff list_all_iff)
  have completes: "fst (evaluatorPass env w) = Inr ()"
    and ids: "map id' (db_notifications (snd (evaluatorPass env w))) = map id' (db_notifications w)"
    using evaluatorPass_plain [OF plain'] by simp_all
  from ids have same: "id' ` set (db_notifications (checkAndTriggerNotifications env w))
      = id' ` set (db_notifications w)"
    unfolding checkAndTriggerNotifications_def by (metis list.set_map)
  show none: "dueNow env (checkAndTriggerNotifications env w) = []"
  proof (cases "dueNow env (checkAndTriggerNotifications env w)")
    case Nil
    then show ?thesis .
  next
    case (Cons n ns)
    then have n: "n \<in> set (dueNow env (checkAndTriggerNotifications env w))"
      by simp
    with h completes have "id' n \<notin> id' ` set (db_notifications w)"
      using second_pass_finds_new_records_only [of w env n] by simp
    moreover from n have "n \<in> set (db_notifications (checkAndTriggerNotifications env w))"
      by (simp add: dueNow_def getScheduledNotifications_def)
    then have "id' n \<in> id' ` set (db_notifications (checkAndTriggerNotifications env w))"
      by (rule imageI)
    ultimately have False
      using same by simp
    then show ?thesis ..
  qed
  then have "filter (isDue (dateNow env (clockReads (checkAndTriggerNotifications env w))))
      (db_notifications (checkAndTriggerNotifications env w)) = []"
    by (simp add: dueNow_def getScheduledNotifications_def)
  then have "evaluatorPass env (checkAndTriggerNotifications env w)
      = (Inr (), (checkAndTriggerNotifications env w)
           \<lparr>clockReads := Suc (clockReads (checkAndTriggerNotifications env w))\<rparr>)"
    by (simp add: evaluatorPass_def getScheduledNotifications_def Let_def)
  then show "shown (checkAndTriggerNotifications env (checkAndTriggerNotifications env w))
                = shown (checkAndTriggerNotifications env w)"
    by (simp add: checkAndTriggerNotifications_def)
qed

theorem second_pass_presents_nothing_old_witness:
  "distinct (map id' (db_notifications reminderWorld))
   \<and> dateNow (utcEnv 6000) (clockReads (checkAndTriggerNotifications (utcEnv 6000) reminderWorld))
       = dateNow (utcEnv 6000) (clockReads reminderWorld)
   \<and> \<not> list_ex recursAfterDelivery (dueNow (utcEnv 6000) reminderWorld)
   \<and> map id' (dueNow (utcEnv 6000) reminderWorld) = [''n0'']
   \<and> dueNow (utcEnv 6000) (checkAndTriggerNotifications (utcEnv 6000) reminderWorld) = []
   \<and> shown (checkAndTriggerNotifications (utcEnv 6000) (checkAndTriggerNotifications (utcEnv 6000) reminderWorld))
       = shown (checkAndTriggerNotifications (utcEnv 6000) reminderWorld)
   \<and> distinct (map id' (db_notifications (firstDaily 500 1000)))
   \<and> fst (evaluatorPass (utcEnv 200000000) (firstDaily 500 1000)) = Inr ()
   \<and> map id' (dueNow (utcEnv 200000000)
         (checkAndTriggerNotifications (utcEnv 200000000) (firstDaily 500 1000))) = [''n1'']
   \<and> ''n1'' \<notin> id' ` set (db_notifications (firstDaily 500 1000))"
proof -
  have unique: "distinct (map id' (db_notifications reminderWorld))"
    by code_simp
  have no_time: "dateNow (utcEnv 6000) (clockReads (checkAndTriggerNotifications (utcEnv 6000) reminderWorld))
       = dateNow (utcEnv 6000) (clockReads reminderWorld)"
    by (simp add: utcEnv_def)
  have plain: "\<not> list_ex recursAfterDelivery (dueNow (utcEnv 6000) reminderWorld)"
    by code_simp
  have due: "map id' (dueNow (utcEnv 6000) reminderWorld) = [''n0'']"
    by code_simp
  note first = second_pass_presents_nothing_old [of reminderWorld "utcEnv 6000"]
  from first [rule_format] unique no_time plain have quiet:
    "dueNow (utcEnv 6000) (checkAndTriggerNotifications (utcEnv 6000) reminderWorld) = []
     \<and> shown (checkAndTriggerNotifications (utcEnv 6000) (checkAndTriggerNotifications (utcEnv 6000) reminderWorld))
       = shown (checkAndTriggerNotifications (utcEnv 6000) reminderWorld)"
    by simp
  have unique2: "distinct (map id' (db_notifications (firstDaily 500 1000)))"
    by code_simp
  have no_time2: "dateNow (utcEnv 200000000)
        (clockReads (checkAndTriggerNotifications (utcEnv 200000000) (firstDaily 500 1000)))
       = dateNow (utcEnv 200000000) (clockReads (firstDaily 500 1000))"
    by (simp add: utcEnv_def)
  have completes2: "fst (evaluatorPass (utcEnv 200000000) (firstDaily 500 1000)) = Inr ()"
    by code_simp
  have due2: "map id' (dueNow (utcEnv 200000000)
         (checkAndTriggerNotifications (utcEnv 200000000) (firstDaily 500 1000))) = [''n1'']"
    by code_simp
  note second = second_pass_presents_nothing_old [of "firstDaily 500 1000" "utcEnv 200000000"]
  from due2 obtain x where only: "dueNow (utcEnv 200000000)
         (checkAndTriggerNotifications (utcEnv 200000000) (firstDaily 500 1000)) = [x]"
    and x: "id' x = ''n1''"
    by (cases "dueNow (utcEnv 200000000)
         (checkAndTriggerNotifications (utcEnv 200000000) (firstDaily 500 1000))") auto
  from second unique2 no_time2 completes2 have
    "\<forall>n \<in> set (dueNow (utcEnv 200000000)
         (checkAndTriggerNotifications (utcEnv 200000000) (firstDaily 500 1000))).
        id' n \<notin> id' ` set (db_notifications (firstDaily 500 1000))"
    by simp
  with only have "id' x \<notin> id' ` set (db_notifications (firstDaily 500 1000))"
    by simp
  with x have fresh: "''n1'' \<notin> id' ` set (db_notifications (firstDaily 500 1000))"
    by simp
  from unique no_time plain due quiet unique2 completes2 due2 fresh show ?thesis
    by simp
qed

text \<open>
  The claim as stated fails: a daily notification for the time 1000 is delivered at
  200000000; its follow-up for 86401000 is due at once, and a second pass at the same
  time finds it and presents it.
\<close>

theorem second_pass_finds_follow_up_counterexample:
  "map id' (dueNow (utcEnv 200000000)
       (checkAndTriggerNotifications (utcEnv 200000000) (firstDaily 500 1000))) = [''n1'']
   \<and> dueNow (utcEnv 200000000)
       (checkAndTriggerNotifications (utcEnv 200000000) (firstDaily 500 1000)) \<noteq> []
   \<and> map shown_data (shown (checkAndTriggerNotifications (utcEnv 200000000) (firstDaily 500 1000)))
       = [SingleData ''t1'' ''n0'']
   \<and> map shown_data (shown (checkAndTriggerNotifications (utcEnv 200000000)
         (checkAndTriggerNotifications (utcEnv 200000000) (firstDaily 500 1000))))
       = [SingleData ''t1'' ''n0'', SingleData ''t1'' ''n1'']"
  by code_simp

subsection \<open>The triggered flag\<close>

lemma deleteScheduledNotification_keeps:
  assumes "distinct (map id' (db_notifications w))"
  shows "distinct (map id' (db_notifications (snd (deleteScheduledNotification key w))))"
    and "keepsTriggered (db_notifications w)
           (db_notifications (snd (deleteScheduledNotification key w)))"
proof -
  show "distinct (map id' (db_notifications (snd (deleteScheduledNotification key w))))"
    using assms by (simp add: deleteScheduledNotification_def idb_delete_def distinct_map_filter)
  show "keepsTriggered (db_notifications w)
           (db_notifications (snd (deleteScheduledNotification key w)))"
    unfolding keepsTriggered_def
  proof (intro ballI impI)
    fix r r'
    assume r: "r \<in> set (db_notifications w)"
      and r': "r' \<in> set (db_notifications (snd (deleteScheduledNotification key w)))"
      and t: "isTriggered r \<and> id' r' = id' r"
    from r' have "r' \<in> set (db_notifications w)"
      by (simp add: deleteScheduledNotification_def idb_delete_def)
    with assms r t have "r' = r" by (simp add: same_key_same_record)
    with t show "isTriggered r'" by simp
  qed
qed

text \<open>One snooze of a task that exists.\<close>

lemma snoozeNotification_task:
  assumes "find (\<lambda>t. task_id t = taskId') (db_tasks w) = Some task"
  obtains newCount t title' options' r w2 where
    "newCount =
       (case find (\<lambda>n. taskId n = taskId' \<and> \<not> isTriggered n) (db_notifications w) of
          None \<Rightarrow> 0
        | Some n \<Rightarrow> (case snoozeCount n of None \<Rightarrow> 0 | Some c \<Rightarrow> c)) + 1"
    and "t = dateNow env (clockReads w) + minutes * 60000"
    and "title' =
       (if newCount > 1 then ''Snoozed Task ('' @ numberToString newCount @ ''x)''
        else ''Snoozed Task Reminder'')"
    and "opt_priority options' = Some (if newCount > 2 then High else Normal)"
    and "scheduleNotification env taskId' title' (''Don't forget: '' @ task_title task) t options'
           (w\<lparr>clockReads := Suc (clockReads w)\<rparr>) = (r, w2)"
    and "snoozeNotification env taskId' minutes w =
           (case r of
              Inl e \<Rightarrow> w2
            | Inr created \<Rightarrow>
                (case find (\<lambda>n. taskId n = taskId' \<and> scheduledTime n = t) (db_notifications w2) of
                   None \<Rightarrow> w2
                 | Some newNotification \<Rightarrow>
                     w2\<lparr>db_notifications :=
                          idb_put (newNotification\<lparr>snoozeCount := Some newCount\<rparr>)
                            (db_notifications w2)\<rparr>))"
proof -
  define newCount where "newCount =
    (case find (\<lambda>n. taskId n = taskId' \<and> \<not> isTriggered n) (db_notifications w) of
       None \<Rightarrow> 0
     | Some n \<Rightarrow> (case snoozeCount n of None \<Rightarrow> 0 | Some c \<Rightarrow> c)) + (1::int)"
  define t where "t = dateNow env (clockReads w) + minutes * 60 * 1000"
  define title' where "title' =
    (if newCount > 1 then ''Snoozed Task ('' @ numberToString newCount @ ''x)''
     else ''Snoozed Task Reminder'')"
  define options' where "options' =
    \<lparr> opt_priority = Some (if newCount > 2 then High else Normal),
      opt_category = Some Reminder,
      opt_taskDueDate = task_dueDate task,
      opt_isRecurring = None,
      opt_recurringPattern = None \<rparr>"
  obtain r w2 where sn:
    "scheduleNotification env taskId' title' (''Don't forget: '' @ task_title task) t options'
       (w\<lparr>clockReads := Suc (clockReads w)\<rparr>) = (r, w2)"
    by (rule prod.exhaust)
  have run: "snoozeNotification env taskId' minutes w =
    (case r of
       Inl e \<Rightarrow> w2
     | Inr created \<Rightarrow>
         (case find (\<lambda>n. taskId n = taskId' \<and> scheduledTime n = t) (db_notifications w2) of
            None \<Rightarrow> w2
          | Some newNotification \<Rightarrow>
              w2\<lparr>db_notifications :=
                   idb_put (newNotification\<lparr>snoozeCount := Some newCount\<rparr>) (db_notifications w2)\<rparr>))"
    unfolding snoozeNotification_def Let_def getScheduledNotifications_def
    using assms sn [unfolded title'_def options'_def newCount_def t_def]
    by (simp only: option.case prod.case newCount_def t_def)
  have "t = dateNow env (clockReads w) + minutes * 60000"
    by (simp add: t_def)
  moreover have "opt_priority options' = Some (if newCount > 2 then High else Normal)"
    by (simp add: options'_def)
  ultimately show ?thesis
    using newCount_def title'_def sn run by (intro that [of newCount t title' options' r w2])
qed

text \<open>How a snooze ended: nothing stored, a record created, or a record created and one patched.\<close>

lemma snoozeNotification_result:
  obtains (unchanged) "snoozeNotification env taskId' minutes w = w"
  | (created) title' body' t options' where
      "snoozeNotification env taskId' minutes w =
         snd (scheduleNotification env taskId' title' body' t options'
                (w\<lparr>clockReads := Suc (clockReads w)\<rparr>))"
  | (patched) title' body' t options' w2 m c where
      "w2 = snd (scheduleNotification env taskId' title' body' t options'
                   (w\<lparr>clockReads := Suc (clockReads w)\<rparr>))"
      and "m \<in> set (db_notifications w2)"
      and "snoozeNotification env taskId' minutes w =
             w2\<lparr>db_notifications := idb_put (m\<lparr>snoozeCount := Some c\<rparr>) (db_notifications w2)\<rparr>"
proof (cases "find (\<lambda>t. task_id t = taskId') (db_tasks w)")
  case None
  then have "snoozeNotification env taskId' minutes w = w"
    by (simp add: snoozeNotification_def)
  then show ?thesis by (rule unchanged)
next
  case (Some task)
  then obtain newCount t title' options' r w2 where
    sn: "scheduleNotification env taskId' title' (''Don't forget: '' @ task_title task) t options'
           (w\<lparr>clockReads := Suc (clockReads w)\<rparr>) = (r, w2)"
    and run: "snoozeNotification env taskId' minutes w =
           (case r of
              Inl e \<Rightarrow> w2
            | Inr created \<Rightarrow>
                (case find (\<lambda>n. taskId n = taskId' \<and> scheduledTime n = t) (db_notifications w2) of
                   None \<Rightarrow> w2
                 | Some newNotification \<Rightarrow>
                     w2\<lparr>db_notifications :=
                          idb_put (newNotification\<lparr>snoozeCount := Some newCount\<rparr>)
                            (db_notifications w2)\<rparr>))"
    by (rule snoozeNotification_task)
  from sn have w2: "w2 = snd (scheduleNotification env taskId' title'
      (''Don't forget: '' @ task_title task) t options' (w\<lparr>clockReads := Suc (clockReads w)\<rparr>))"
    by simp
  show ?thesis
  proof (cases r)
    case (Inl e)
    with run have "snoozeNotification env taskId' minutes w = w2" by simp
    with w2 show ?thesis by (simp add: created)
  next
    case (Inr n)
    show ?thesis
    proof (cases "find (\<lambda>n. taskId n = taskId' \<and> scheduledTime n = t) (db_notifications w2)")
      case None
      with run Inr have "snoozeNotification env taskId' minutes w = w2" by simp
      with w2 show ?thesis by (simp add: created)
    next
      case (Some m)
      then have "m \<in> set (db_notifications w2)"
        by (auto simp: find_Some_iff)
      moreover from run Inr Some have "snoozeNotification env taskId' minutes w =
             w2\<lparr>db_notifications := idb_put (m\<lparr>snoozeCount := Some newCount\<rparr>) (db_notifications w2)\<rparr>"
        by simp
      ultimately show ?thesis
        using w2 by (intro patched)
    qed
  qed
qed

lemma snoozeNotification_extends:
  assumes "distinct (map id' (db_notifications w))"
  shows "storeExtends (db_notifications w) (db_notifications (snoozeNotification env taskId' minutes w))"
proof (cases rule: snoozeNotification_result [of env taskId' minutes w])
  case unchanged
  with assms show ?thesis by (simp add: storeExtends_refl)
next
  case (created title' body' t options')
  have "distinct (map id' (db_notifications (w\<lparr>clockReads := Suc (clockReads w)\<rparr>)))"
    using assms by simp
  from scheduleNotification_extends(1) [OF this] created show ?thesis
    by simp
next
  case (patched title' body' t options' w2 m c)
  have "distinct (map id' (db_notifications (w\<lparr>clockReads := Suc (clockReads w)\<rparr>)))"
    using assms by simp
  from scheduleNotification_extends(1) [OF this] patched(1)
  have e1: "storeExtends (db_notifications w) (db_notifications w2)"
    by simp
  then have "distinct (map id' (db_notifications w2))"
    by (simp add: storeExtends_def)
  then have "storeExtends (db_notifications w2)
      (idb_put (m\<lparr>snoozeCount := Some c\<rparr>) (db_notifications w2))"
    using patched(2) by (rule storeExtends_put) simp_all
  with e1 have "storeExtends (db_notifications w)
      (idb_put (m\<lparr>snoozeCount := Some c\<rparr>) (db_notifications w2))"
    by (rule storeExtends_trans)
  with patched(3) show ?thesis by simp
qed

lemma scheduleTaskReminder_extends:
  "distinct (map id' (db_notifications w)) \<Longrightarrow>
   storeExtends (db_notifications w)
     (db_notifications (snd (scheduleTaskReminder fuel env taskId' taskTitle t rep iv options w)))"
proof (induction fuel arbitrary: t w)
  case 0
  then show ?case
    by (simp add: scheduleTaskReminder.simps(1) storeExtends_refl)
next
  case (Suc fuel)
  show ?case
  proof (cases "t \<le> dateNow env (clockReads w)")
    case True
    with Suc.prems show ?thesis
      by (simp add: scheduleTaskReminder_rejects storeExtends_refl)
  next
    case False
    then obtain title' options' r w2 where
      sn: "scheduleNotification env taskId' title' (''Don't forget: '' @ taskTitle) t options'
             (w\<lparr>clockReads := Suc (clockReads w)\<rparr>) = (r, w2)"
      and run: "scheduleTaskReminder (Suc fuel) env taskId' taskTitle t rep iv options w =
           (case r of
              Inl e \<Rightarrow> (Threw e, w2)
            | Inr created \<Rightarrow>
                (case iv of
                   Some interval \<Rightarrow>
                     if rep
                     then scheduleTaskReminder fuel env taskId' taskTitle
                            (nextOccurrence env interval t) rep iv options w2
                     else (Returned, w2)
                 | None \<Rightarrow> (Returned, w2)))"
      by (rule scheduleTaskReminder_accepts)
    have "distinct (map id' (db_notifications (w\<lparr>clockReads := Suc (clockReads w)\<rparr>)))"
      using Suc.prems by simp
    from scheduleNotification_extends(1)
        [OF this, of env taskId' title' "''Don't forget: '' @ taskTitle" t options'] sn
    have e1: "storeExtends (db_notifications w) (db_notifications w2)"
      by simp
    then have d2: "distinct (map id' (db_notifications w2))"
      by (simp add: storeExtends_def)
    show ?thesis
    proof (cases "\<exists>created interval. r = Inr created \<and> iv = Some interval \<and> rep")
      case True
      then obtain created interval where "r = Inr created" "iv = Some interval" rep
        by blast
      with run have "scheduleTaskReminder (Suc fuel) env taskId' taskTitle t rep iv options w
          = scheduleTaskReminder fuel env taskId' taskTitle
              (nextOccurrence env interval t) rep iv options w2"
        by simp
      moreover have "storeExtends (db_notifications w)
          (db_notifications (snd (scheduleTaskReminder fuel env taskId' taskTitle
              (nextOccurrence env interval t) rep iv options w2)))"
        using e1 Suc.IH [OF d2] by (rule storeExtends_trans)
      ultimately show ?thesis by simp
    next
      case False
      with run have "snd (scheduleTaskReminder (Suc fuel) env taskId' taskTitle t rep iv options w) = w2"
        by (cases r; cases iv) auto
      with e1 show ?thesis by simp
    qed
  qed
qed

lemma perform_extends:
  assumes "distinct (map id' (db_notifications w))"
  shows "distinct (map id' (db_notifications (perform env operation w)))
         \<and> keepsTriggered (db_notifications w) (db_notifications (perform env operation w))"
proof (cases operation)
  case (ScheduleNotification taskId' title' body' t options)
  with scheduleNotification_extends(1) [OF assms, of env taskId' title' body' t options]
  show ?thesis by (simp add: storeExtends_def)
next
  case (MarkNotificationTriggered key)
  with markNotificationTriggered_extends(1) [OF assms, of key]
  show ?thesis by (simp add: storeExtends_def)
next
  case (DeleteScheduledNotification key)
  with deleteScheduledNotification_keeps [OF assms, of key]
  show ?thesis by simp
next
  case CheckAndTriggerNotifications
  with evaluatorPass_extends [OF assms, of env]
  show ?thesis by (simp add: storeExtends_def checkAndTriggerNotifications_def)
next
  case (SnoozeNotification taskId' minutes)
  with snoozeNotification_extends [OF assms, of env taskId' minutes]
  show ?thesis by (simp add: storeExtends_def)
next
  case (ScheduleTaskReminder fuel taskId' taskTitle t rep iv options)
  with scheduleTaskReminder_extends [OF assms, of fuel env taskId' taskTitle t rep iv options]
  show ?thesis by (simp add: storeExtends_def)
qed

lemma markNotificationTriggered_all_marked:
  assumes "markNotificationTriggered key w = (Inr u, w')"
    and "r \<in> set (db_notifications w')" and "id' r = key"
  shows "isTriggered r"
proof -
  from assms(1) obtain m where m: "m \<in> set (db_notifications w)" "id' m = key"
    and put: "db_notifications w' = idb_put (m\<lparr>isTriggered := True\<rparr>) (db_notifications w)"
    by (rule markNotificationTriggered_Inr)
  define marked where "marked = m\<lparr>isTriggered := True\<rparr>"
  have marked: "id' marked = key" "isTriggered marked"
    using m(2) by (simp_all add: marked_def)
  from m marked(1) have "idb_get (id' marked) (db_notifications w) \<noteq> None"
    by (auto simp: idb_get_None_iff)
  then have "idb_put marked (db_notifications w)
      = map (\<lambda>x. if id' x = id' marked then marked else x) (db_notifications w)"
    by (rule idb_put_present)
  with put assms(2) have "r \<in> set (map (\<lambda>x. if id' x = id' marked then marked else x)
      (db_notifications w))"
    by (simp only: marked_def)
  then have "r = marked \<or> (r \<in> set (db_notifications w) \<and> id' r \<noteq> id' marked)"
    by (rule set_replace)
  with assms(3) marked show ?thesis by auto
qed

text \<open>
  Claim C5. On a store with unique keys every operation of the subsystem leaves the keys
  unique and leaves every record that was triggered, and is still stored, triggered;
  \<open>scheduleNotification\<close> creates its record untriggered; and after
  \<open>markNotificationTriggered\<close> has resolved, the record under the identifier is stored and
  triggered.
\<close>

theorem isTriggered_only_rises:
  "(distinct (map id' (db_notifications w)) \<longrightarrow>
      distinct (map id' (db_notifications (perform env operation w)))
      \<and> keepsTriggered (db_notifications w) (db_notifications (perform env operation w)))
   \<and> (\<forall>n w'. scheduleNotification env taskId' title' body' t options w = (Inr n, w')
         \<longrightarrow> \<not> isTriggered n \<and> n \<in> set (db_notifications w'))
   \<and> (\<forall>w'. markNotificationTriggered key w = (Inr (), w')
         \<longrightarrow> key \<in> id' ` set (db_notifications w')
             \<and> (\<forall>r \<in> set (db_notifications w'). id' r = key \<longrightarrow> isTriggered r))"
proof (intro conjI allI impI ballI)
  assume "distinct (map id' (db_notifications w))"
  then show "distinct (map id' (db_notifications (perform env operation w)))"
    and "keepsTriggered (db_notifications w) (db_notifications (perform env operation w))"
    using perform_extends by simp_all
next
  fix n w'
  assume created: "scheduleNotification env taskId' title' body' t options w = (Inr n, w')"
  show "\<not> isTriggered n"
    using scheduleNotification_Inr(4) [OF created] by simp
  show "n \<in> set (db_notifications w')"
    using scheduleNotification_Inr(12) [OF created] by simp
next
  fix w'
  assume marked: "markNotificationTriggered key w = (Inr (), w')"
  then obtain r where "r \<in> set (db_notifications w')" "id' r = key"
    using markNotificationTriggered_marks by blast
  then show "key \<in> id' ` set (db_notifications w')"
    by (rule rev_image_eqI [OF _ sym])
next
  fix w' r
  assume "markNotificationTriggered key w = (Inr (), w')"
    and "r \<in> set (db_notifications w')" and "id' r = key"
  then show "isTriggered r"
    by (rule markNotificationTriggered_all_marked)
qed

theorem isTriggered_only_rises_witness:
  "distinct (map id' (db_notifications reminderWorld))
   \<and> distinct (map id' (db_notifications
         (perform (utcEnv 6000) CheckAndTriggerNotifications reminderWorld)))
   \<and> keepsTriggered (db_notifications reminderWorld)
         (db_notifications (perform (utcEnv 6000) CheckAndTriggerNotifications reminderWorld))
   \<and> map isTriggered (db_notifications reminderWorld) = [False]
   \<and> map isTriggered (db_notifications
         (perform (utcEnv 6000) CheckAndTriggerNotifications reminderWorld)) = [True]
   \<and> \<not> isTriggered (projr (fst (scheduleNotification (utcEnv 6000) ''t1'' ''Daily'' ''water'' 1000
                                   dailyOptions emptyWorld)))
   \<and> ''n0'' \<in> id' ` set (db_notifications (snd (markNotificationTriggered ''n0'' reminderWorld)))
   \<and> map isTriggered (db_notifications (snd (markNotificationTriggered ''n0'' reminderWorld))) = [True]"
proof -
  have unique: "distinct (map id' (db_notifications reminderWorld))"
    by code_simp
  have before: "map isTriggered (db_notifications reminderWorld) = [False]"
    by code_simp
  have after: "map isTriggered (db_notifications
         (perform (utcEnv 6000) CheckAndTriggerNotifications reminderWorld)) = [True]"
    by code_simp
  have created: "scheduleNotification (utcEnv 6000) ''t1'' ''Daily'' ''water'' 1000 dailyOptions emptyWorld
      = (Inr (projr (fst (scheduleNotification (utcEnv 6000) ''t1'' ''Daily'' ''water'' 1000
                            dailyOptions emptyWorld))),
         snd (scheduleNotification (utcEnv 6000) ''t1'' ''Daily'' ''water'' 1000 dailyOptions emptyWorld))"
    by code_simp
  have marked: "markNotificationTriggered ''n0'' reminderWorld
      = (Inr (), snd (markNotificationTriggered ''n0'' reminderWorld))"
    by code_simp
  have flags: "map isTriggered (db_notifications (snd (markNotificationTriggered ''n0'' reminderWorld))) = [True]"
    by code_simp
  note rises = isTriggered_only_rises
    [where w = reminderWorld and env = "utcEnv 6000" and operation = CheckAndTriggerNotifications
       and key = "''n0''"]
  note rises' = isTriggered_only_rises
    [where w = emptyWorld and env = "utcEnv 6000" and taskId' = "''t1''" and title' = "''Daily''"
       and body' = "''water''" and t = 1000 and options = dailyOptions]
  have kept:
    "distinct (map id' (db_notifications
         (perform (utcEnv 6000) CheckAndTriggerNotifications reminderWorld)))
     \<and> keepsTriggered (db_notifications reminderWorld)
         (db_notifications (perform (utcEnv 6000) CheckAndTriggerNotifications reminderWorld))"
    by (rule rises [THEN conjunct1, rule_format, OF unique])
  have fresh:
    "\<not> isTriggered (projr (fst (scheduleNotification (utcEnv 6000) ''t1'' ''Daily'' ''water'' 1000
                                   dailyOptions emptyWorld)))"
    by (rule rises' [THEN conjunct2, THEN conjunct1, rule_format, OF created, THEN conjunct1])
  have stored:
    "''n0'' \<in> id' ` set (db_notifications (snd (markNotificationTriggered ''n0'' reminderWorld)))"
    by (rule rises [THEN conjunct2, THEN conjunct2, rule_format, OF marked, THEN conjunct1])
  from unique kept before after fresh stored flags show ?thesis
    by (simp only: simp_thms)
qed

subsection \<open>Snoozing where nothing clashes\<close>

lemma find_idb_insert_new:
  "P n \<Longrightarrow> \<not> list_ex P rs \<Longrightarrow> find P (idb_insert n rs) = Some n"
  by (induction rs) auto

text \<open>
  Where no record of the task stands at the time the snooze lands on, and the new
  identifier is unused, the snooze does what claim C6 says: the store holds the new record
  with the count raised by one, the time, the title and the priority.
\<close>

lemma snoozeNotification_without_clash:
  assumes task: "find (\<lambda>t. task_id t = taskId') (db_tasks w) = Some task"
    and existing: "find (\<lambda>n. taskId n = taskId' \<and> \<not> isTriggered n) (db_notifications w) = Some e"
      "snoozeCount e = Some k"
    and unused: "idb_get (randomUUID env (uuidReads w)) (db_notifications w) = None"
    and no_clash: "\<not> list_ex (\<lambda>n. taskId n = taskId'
        \<and> scheduledTime n = dateNow env (clockReads w) + minutes * 60000) (db_notifications w)"
  shows "\<exists>n \<in> set (db_notifications (snoozeNotification env taskId' minutes w)).
           id' n = randomUUID env (uuidReads w)
           \<and> snoozeCount n = Some (k + 1)
           \<and> scheduledTime n = dateNow env (clockReads w) + minutes * 60000
           \<and> title n = (if k + 1 > 1 then ''Snoozed Task ('' @ numberToString (k + 1) @ ''x)''
                        else ''Snoozed Task Reminder'')
           \<and> priority n = Some (if k + 1 > 2 then High else Normal)
           \<and> \<not> isTriggered n"
proof -
  from task obtain newCount t title' options' r w2 where
    count: "newCount =
       (case find (\<lambda>n. taskId n = taskId' \<and> \<not> isTriggered n) (db_notifications w) of
          None \<Rightarrow> 0
        | Some n \<Rightarrow> (case snoozeCount n of None \<Rightarrow> 0 | Some c \<Rightarrow> c)) + 1"
    and t: "t = dateNow env (clockReads w) + minutes * 60000"
    and title': "title' =
       (if newCount > 1 then ''Snoozed Task ('' @ numberToString newCount @ ''x)''
        else ''Snoozed Task Reminder'')"
    and pri: "opt_priority options' = Some (if newCount > 2 then High else Normal)"
    and sn: "scheduleNotification env taskId' title' (''Don't forget: '' @ task_title task) t options'
           (w\<lparr>clockReads := Suc (clockReads w)\<rparr>) = (r, w2)"
    and run: "snoozeNotification env taskId' minutes w =
           (case r of
              Inl e \<Rightarrow> w2
            | Inr created \<Rightarrow>
                (case find (\<lambda>n. taskId n = taskId' \<and> scheduledTime n = t) (db_notifications w2) of
                   None \<Rightarrow> w2
                 | Some newNotification \<Rightarrow>
                     w2\<lparr>db_notifications :=
                          idb_put (newNotification\<lparr>snoozeCount := Some newCount\<rparr>)
                            (db_notifications w2)\<rparr>))"
    by (rule snoozeNotification_task)
  from count existing have newCount: "newCount = k + 1"
    by simp
  from unused sn obtain n where r: "r = Inr n"
    by (cases r) (simp_all add: scheduleNotification_cases Let_def)
  with sn have created:
    "scheduleNotification env taskId' title' (''Don't forget: '' @ task_title task) t options'
           (w\<lparr>clockReads := Suc (clockReads w)\<rparr>) = (Inr n, w2)"
    by simp
  note facts = scheduleNotification_Inr [OF created]
  note words = scheduleNotification_Inr_text [OF created]
  have stored: "db_notifications w2 = idb_insert n (db_notifications w)"
    using facts(18) by simp
  have "taskId n = taskId' \<and> scheduledTime n = t"
    using facts(2,11) by simp
  moreover have "\<not> list_ex (\<lambda>n. taskId n = taskId' \<and> scheduledTime n = t) (db_notifications w)"
    using no_clash t by simp
  ultimately have found:
    "find (\<lambda>n. taskId n = taskId' \<and> scheduledTime n = t) (db_notifications w2) = Some n"
    unfolding stored by (rule find_idb_insert_new)
  define patched where "patched = n\<lparr>snoozeCount := Some newCount\<rparr>"
  from run r found have result: "db_notifications (snoozeNotification env taskId' minutes w)
      = idb_put patched (db_notifications w2)"
    by (simp add: patched_def)
  have n_stored: "n \<in> set (db_notifications w2)"
    using facts(12) by simp
  have same_key: "id' n = id' patched"
    by (simp add: patched_def)
  from n_stored have "id' n \<in> id' ` set (db_notifications w2)"
    by (rule imageI)
  with same_key have "idb_get (id' patched) (db_notifications w2) \<noteq> None"
    by (simp add: idb_get_None_iff)
  then have "idb_put patched (db_notifications w2)
      = map (\<lambda>m. if id' m = id' patched then patched else m) (db_notifications w2)"
    by (rule idb_put_present)
  moreover have "patched \<in> set (map (\<lambda>m. if id' m = id' patched then patched else m)
      (db_notifications w2))"
    using n_stored same_key by (rule replaced_mem)
  ultimately have "patched \<in> set (db_notifications (snoozeNotification env taskId' minutes w))"
    using result by simp
  moreover have "id' patched = randomUUID env (uuidReads w)"
    using facts(1) by (simp add: patched_def)
  moreover have "snoozeCount patched = Some (k + 1)"
    using newCount by (simp add: patched_def)
  moreover have "scheduledTime patched = dateNow env (clockReads w) + minutes * 60000"
    using facts(2) t by (simp add: patched_def)
  moreover have "title patched = (if k + 1 > 1 then ''Snoozed Task ('' @ numberToString (k + 1) @ ''x)''
                        else ''Snoozed Task Reminder'')"
    using words(1) title' newCount by (simp add: patched_def)
  moreover have "priority patched = Some (if k + 1 > 2 then High else Normal)"
    using facts(9) pri newCount by (simp add: patched_def)
  moreover have "\<not> isTriggered patched"
    using facts(4) by (simp add: patched_def)
  ultimately show ?thesis
    by blast
qed

subsection \<open>One pass presents each due notification once\<close>

lemma presentedIds_presentGroup: "presentedIds (presentGroup g) = map id' g"
proof (cases "length g = 1")
  case True
  then obtain n where "g = [n]"
    by (cases g) auto
  then show ?thesis
    by (simp add: presentedIds_def presentGroup_def)
next
  case False
  then show ?thesis
    by (simp add: presentedIds_def presentGroup_def Let_def)
qed

lemma presentedIds_groups:
  "concat (map (\<lambda>g. presentedIds (presentGroup g)) gs) = map id' (concat gs)"
  by (induction gs) (simp_all add: presentedIds_presentGroup)

lemma markNotificationTriggered_shown:
  "shown (snd (markNotificationTriggered key w)) = shown w"
  by (cases "idb_get key (db_notifications w)") (simp_all add: markNotificationTriggered_def)

lemma scheduleNotification_shown:
  "shown (snd (scheduleNotification env taskId' title' body' t options w)) = shown w"
proof (cases "scheduleNotification env taskId' title' body' t options w")
  case (Pair r w')
  then show ?thesis
    by (cases r) (simp_all add: scheduleNotification_Inl(5) scheduleNotification_Inr(17))
qed

lemma scheduleRecurringNotification_shown:
  "shown (snd (scheduleRecurringNotification env n w)) = shown w"
proof (cases "recurringPattern n")
  case None
  then show ?thesis by (simp add: scheduleRecurringNotification_def)
next
  case (Some pattern)
  obtain r w' where sn:
    "scheduleNotification env (taskId n) (title n) (body n)
       (nextOccurrence env pattern (anchorTime n))
       \<lparr> opt_priority = priority n, opt_category = category n, opt_taskDueDate = taskDueDate n,
         opt_isRecurring = Some True, opt_recurringPattern = Some pattern \<rparr> w = (r, w')"
    by (rule prod.exhaust)
  with Some have "snd (scheduleRecurringNotification env n w) = w'"
    by (cases r) (simp_all add: scheduleRecurringNotification_def)
  moreover from sn have "w' = snd (scheduleNotification env (taskId n) (title n) (body n)
       (nextOccurrence env pattern (anchorTime n))
       \<lparr> opt_priority = priority n, opt_category = category n, opt_taskDueDate = taskDueDate n,
         opt_isRecurring = Some True, opt_recurringPattern = Some pattern \<rparr> w)"
    by simp
  then have "shown w' = shown w"
    by (simp only: scheduleNotification_shown)
  ultimately show ?thesis by simp
qed

lemma triggerMembers_shown: "shown (snd (triggerMembers env ns w)) = shown w"
proof (induction ns arbitrary: w)
  case Nil
  then show ?case by simp
next
  case (Cons n ns)
  obtain r1 w1 where mk: "markNotificationTriggered (id' n) w = (r1, w1)"
    by (rule prod.exhaust)
  then have s1: "shown w1 = shown w"
    using markNotificationTriggered_shown [of "id' n" w] by simp
  show ?case
  proof (cases r1)
    case (Inl e)
    with mk s1 show ?thesis by simp
  next
    case (Inr u)
    show ?thesis
    proof (cases "recursAfterDelivery n")
      case False
      with mk Inr s1 Cons.IH [of w1] show ?thesis by simp
    next
      case True
      obtain r2 w2 where sr: "scheduleRecurringNotification env n w1 = (r2, w2)"
        by (rule prod.exhaust)
      then have s2: "shown w2 = shown w1"
        using scheduleRecurringNotification_shown [of env n w1] by simp
      with mk Inr True sr s1 Cons.IH [of w2] show ?thesis
        by (cases r2) simp_all
    qed
  qed
qed

lemma triggerGroups_shown:
  "triggerGroups env gs w = (Inr u, w') \<Longrightarrow> shown w' = shown w @ map presentGroup gs"
proof (induction gs arbitrary: w)
  case Nil
  then show ?case by simp
next
  case (Cons g gs)
  obtain r1 w1 where tm: "triggerMembers env g (showNotification (presentGroup g) w) = (r1, w1)"
    by (rule prod.exhaust)
  with Cons.prems obtain u1 where r1: "r1 = Inr u1"
    by (cases r1) simp_all
  with tm Cons.prems have rest: "triggerGroups env gs w1 = (Inr u, w')"
    by simp
  have "shown w1 = shown w @ [presentGroup g]"
    using triggerMembers_shown [of env g "showNotification (presentGroup g) w"] tm
    by (simp add: showNotification_def)
  with Cons.IH [OF rest] show ?case by simp
qed

lemma evaluatorPass_shown:
  assumes "fst (evaluatorPass env w) = Inr ()"
  shows "shown (checkAndTriggerNotifications env w)
           = shown w @ map presentGroup (groupNotificationsByTimeAndPriority (dueNow env w) 180000)"
proof (cases rule: evaluatorPass_cases [of env w])
  case idle
  then show ?thesis
    by (simp add: checkAndTriggerNotifications_def dueNow_def getScheduledNotifications_def
          groupNotificationsByTimeAndPriority_def sortBy_def)
next
  case busy
  from assms have "evaluatorPass env w = (Inr (), checkAndTriggerNotifications env w)"
    by (simp add: checkAndTriggerNotifications_def prod_eq_iff)
  with busy(2) have "triggerGroups env
       (groupNotificationsByTimeAndPriority
          (filter (isDue (dateNow env (clockReads w))) (db_notifications w)) 180000)
       (w\<lparr>clockReads := Suc (clockReads w)\<rparr>) = (Inr (), checkAndTriggerNotifications env w)"
    by simp
  from triggerGroups_shown [OF this] show ?thesis
    by (simp add: dueNow_def getScheduledNotifications_def)
qed

text \<open>
  Claim C10. The groups are a partition of the input: concatenated they hold every input
  notification as often as the input does, no group is empty, and they repeat a
  notification only where the input does. So a pass of the evaluator that runs to its end
  on a store with unique keys makes one presentation a group, the presentations hold the
  identifier of every due notification exactly once, and every due notification is
  triggered afterwards.
\<close>

theorem groupNotifications_partition:
  "mset (concat (groupNotificationsByTimeAndPriority ns window)) = mset ns
   \<and> [] \<notin> set (groupNotificationsByTimeAndPriority ns window)
   \<and> distinct (concat (groupNotificationsByTimeAndPriority ns window)) = distinct ns
   \<and> (distinct (map id' (db_notifications w)) \<and> fst (evaluatorPass env w) = Inr () \<longrightarrow>
        shown (checkAndTriggerNotifications env w)
          = shown w @ map presentGroup (groupNotificationsByTimeAndPriority (dueNow env w) 180000)
        \<and> mset (concat (map presentedIds
              (map presentGroup (groupNotificationsByTimeAndPriority (dueNow env w) 180000))))
          = mset (map id' (dueNow env w))
        \<and> (\<forall>n \<in> set (dueNow env w).
              \<exists>r \<in> set (db_notifications (checkAndTriggerNotifications env w)).
                id' r = id' n \<and> isTriggered r))"
proof -
  have sorted: "concat (groupNotificationsByTimeAndPriority ns window) = sortBy compareNotifications ns"
    for ns window
    by (simp add: group_is_greedy concat_greedyWindows)
  have part: "mset (concat (groupNotificationsByTimeAndPriority ns window)) = mset ns"
    for ns window
    by (simp add: sorted mset_sortBy)
  have "distinct (sortBy compareNotifications ns) = distinct ns"
    using mset_sortBy [of compareNotifications ns] by (metis mset_eq_imp_distinct_iff)
  then have dist: "distinct (concat (groupNotificationsByTimeAndPriority ns window)) = distinct ns"
    by (simp add: sorted)
  have nonempty: "[] \<notin> set (groupNotificationsByTimeAndPriority ns window)"
    by (simp add: group_is_greedy greedyWindows_nonempty)
  have ids: "mset (concat (map presentedIds
              (map presentGroup (groupNotificationsByTimeAndPriority (dueNow env w) 180000))))
          = mset (map id' (dueNow env w))"
  proof -
    have "concat (map presentedIds
              (map presentGroup (groupNotificationsByTimeAndPriority (dueNow env w) 180000)))
        = map id' (concat (groupNotificationsByTimeAndPriority (dueNow env w) 180000))"
      using presentedIds_groups [of "groupNotificationsByTimeAndPriority (dueNow env w) 180000"]
      by (simp add: comp_def)
    then show ?thesis
      using part [of "dueNow env w" 180000] by (metis mset_map)
  qed
  have pass: "shown (checkAndTriggerNotifications env w)
          = shown w @ map presentGroup (groupNotificationsByTimeAndPriority (dueNow env w) 180000)
        \<and> (\<forall>n \<in> set (dueNow env w).
              \<exists>r \<in> set (db_notifications (checkAndTriggerNotifications env w)).
                id' r = id' n \<and> isTriggered r)"
    if unique: "distinct (map id' (db_notifications w))"
      and completes: "fst (evaluatorPass env w) = Inr ()"
  proof
    from completes show "shown (checkAndTriggerNotifications env w)
          = shown w @ map presentGroup (groupNotificationsByTimeAndPriority (dueNow env w) 180000)"
      by (rule evaluatorPass_shown)
    from completes have run: "evaluatorPass env w = (Inr (), checkAndTriggerNotifications env w)"
      by (simp add: checkAndTriggerNotifications_def prod_eq_iff)
    show "\<forall>n \<in> set (dueNow env w).
              \<exists>r \<in> set (db_notifications (checkAndTriggerNotifications env w)).
                id' r = id' n \<and> isTriggered r"
    proof
      fix n
      assume "n \<in> set (dueNow env w)"
      then have "n \<in> set (db_notifications w)" and "isDue (dateNow env (clockReads w)) n"
        by (simp_all add: dueNow_def getScheduledNotifications_def)
      with unique run show "\<exists>r \<in> set (db_notifications (checkAndTriggerNotifications env w)).
                id' r = id' n \<and> isTriggered r"
        by (rule evaluatorPass_triggers_due)
    qed
  qed
  from part nonempty dist ids pass show ?thesis
    by simp
qed

theorem groupNotifications_partition_witness:
  "distinct (map id' (db_notifications twoReminders))
   \<and> fst (evaluatorPass (utcEnv 6000) twoReminders) = Inr ()
   \<and> map id' (dueNow (utcEnv 6000) twoReminders) = [''n0'', ''n1'']
   \<and> shown (checkAndTriggerNotifications (utcEnv 6000) twoReminders)
        = shown twoReminders
            @ map presentGroup (groupNotificationsByTimeAndPriority (dueNow (utcEnv 6000) twoReminders) 180000)
   \<and> mset (concat (map presentedIds
         (map presentGroup (groupNotificationsByTimeAndPriority (dueNow (utcEnv 6000) twoReminders) 180000))))
        = mset (map id' (dueNow (utcEnv 6000) twoReminders))
   \<and> map presentedIds (shown (checkAndTriggerNotifications (utcEnv 6000) twoReminders))
        = [[''n0'', ''n1'']]
   \<and> map isTriggered (db_notifications (checkAndTriggerNotifications (utcEnv 6000) twoReminders))
        = [True, True]"
proof -
  have unique: "distinct (map id' (db_notifications twoReminders))"
    by code_simp
  have completes: "fst (evaluatorPass (utcEnv 6000) twoReminders) = Inr ()"
    by code_simp
  have due: "map id' (dueNow (utcEnv 6000) twoReminders) = [''n0'', ''n1'']"
    by code_simp
  have presented: "map presentedIds (shown (checkAndTriggerNotifications (utcEnv 6000) twoReminders))
        = [[''n0'', ''n1'']]"
    by code_simp
  have flags: "map isTriggered (db_notifications (checkAndTriggerNotifications (utcEnv 6000) twoReminders))
        = [True, True]"
    by code_simp
  note pass = groupNotifications_partition
    [where w = twoReminders and env = "utcEnv 6000",
      THEN conjunct2, THEN conjunct2, THEN conjunct2, rule_format, OF conjI, OF unique completes]
  from unique completes due pass [THEN conjunct1] pass [THEN conjunct2, THEN conjunct1]
    presented flags
  show ?thesis
    by (simp only: simp_thms)
qed

subsection \<open>Scheduled time and creation time\<close>

lemma storedBefore_mem: "n \<in> set rs \<Longrightarrow> storedBefore rs n"
  by (auto simp: storedBefore_def list_ex_iff intro!: bexI [of _ n])

lemma storedBefore_patched: "m \<in> set rs \<Longrightarrow> storedBefore rs (m\<lparr>snoozeCount := c\<rparr>)"
  by (auto simp: storedBefore_def list_ex_iff intro!: bexI [of _ m])

lemma scheduledAfterGuard_patched:
  "scheduledAfterGuard env m \<Longrightarrow> scheduledAfterGuard env (m\<lparr>snoozeCount := c\<rparr>)"
  by (simp add: scheduledAfterGuard_def)

lemma scheduledAfterGuard_steady:
  "scheduledAfterGuard env n \<Longrightarrow> \<forall>k. dateNow env (Suc k) = dateNow env k \<Longrightarrow> futureAtCreation n"
  by (auto simp: scheduledAfterGuard_def futureAtCreation_def)

lemma set_idb_put_present:
  assumes "m \<in> set rs" and "id' r = id' m" and "n \<in> set (idb_put r rs)"
  shows "n = r \<or> n \<in> set rs"
proof -
  from assms(1,2) have "idb_get (id' r) rs \<noteq> None"
    by (simp add: idb_get_None_iff)
  then have "idb_put r rs = map (\<lambda>x. if id' x = id' r then r else x) rs"
    by (rule idb_put_present)
  with assms(3) show ?thesis by auto
qed

text \<open>
  A snooze of a positive number of minutes: every record of the store after it is a record
  that stood there before, but for its snooze count, or is scheduled after the clock
  reading the snooze time was computed from.
\<close>

lemma snoozeNotification_created:
  assumes "0 < minutes"
    and "n \<in> set (db_notifications (snoozeNotification env taskId' minutes w))"
  shows "storedBefore (db_notifications w) n \<or> scheduledAfterGuard env n"
proof (cases "find (\<lambda>t. task_id t = taskId') (db_tasks w)")
  case None
  then have "snoozeNotification env taskId' minutes w = w"
    by (simp add: snoozeNotification_def)
  with assms(2) show ?thesis by (simp add: storedBefore_mem)
next
  case (Some task)
  then obtain newCount t title' options' r w2 where
    t: "t = dateNow env (clockReads w) + minutes * 60000"
    and sn: "scheduleNotification env taskId' title' (''Don't forget: '' @ task_title task) t options'
           (w\<lparr>clockReads := Suc (clockReads w)\<rparr>) = (r, w2)"
    and run: "snoozeNotification env taskId' minutes w =
           (case r of
              Inl e \<Rightarrow> w2
            | Inr created \<Rightarrow>
                (case find (\<lambda>n. taskId n = taskId' \<and> scheduledTime n = t) (db_notifications w2) of
                   None \<Rightarrow> w2
                 | Some newNotification \<Rightarrow>
                     w2\<lparr>db_notifications :=
                          idb_put (newNotification\<lparr>snoozeCount := Some newCount\<rparr>)
                            (db_notifications w2)\<rparr>))"
    by (rule snoozeNotification_task)
  show ?thesis
  proof (cases r)
    case (Inl e)
    with sn have "db_notifications w2 = db_notifications (w\<lparr>clockReads := Suc (clockReads w)\<rparr>)"
      by (simp add: scheduleNotification_Inl(1))
    with run Inl assms(2) show ?thesis by (simp add: storedBefore_mem)
  next
    case (Inr created)
    with sn have created:
      "scheduleNotification env taskId' title' (''Don't forget: '' @ task_title task) t options'
           (w\<lparr>clockReads := Suc (clockReads w)\<rparr>) = (Inr created, w2)"
      by simp
    note facts = scheduleNotification_Inr [OF created]
    have stored: "set (db_notifications w2) = insert created (set (db_notifications w))"
      using facts(12) by simp
    have after: "scheduledAfterGuard env created"
      unfolding scheduledAfterGuard_def
    proof (intro exI conjI)
      show "dateNow env (clockReads w) < scheduledTime created"
        using assms(1) facts(2) t by simp
      show "createdAt created = dateNow env (Suc (clockReads w))"
        using facts(5) by simp
    qed
    have in_w2: "storedBefore (db_notifications w) x \<or> scheduledAfterGuard env x"
      if "x \<in> set (db_notifications w2)" for x
      using that stored after by (auto simp: storedBefore_mem)
    show ?thesis
    proof (cases "find (\<lambda>n. taskId n = taskId' \<and> scheduledTime n = t) (db_notifications w2)")
      case None
      with run Inr have "snoozeNotification env taskId' minutes w = w2" by simp
      with assms(2) show ?thesis by (simp add: in_w2)
    next
      case (Some m)
      then have m: "m \<in> set (db_notifications w2)"
        by (auto simp: find_Some_iff)
      from run Inr Some have "db_notifications (snoozeNotification env taskId' minutes w) =
             idb_put (m\<lparr>snoozeCount := Some newCount\<rparr>) (db_notifications w2)"
        by simp
      with assms(2) have "n \<in> set (idb_put (m\<lparr>snoozeCount := Some newCount\<rparr>) (db_notifications w2))"
        by simp
      with m have "n = m\<lparr>snoozeCount := Some newCount\<rparr> \<or> n \<in> set (db_notifications w2)"
        by (intro set_idb_put_present [of m]) simp_all
      then show ?thesis
      proof
        assume n: "n = m\<lparr>snoozeCount := Some newCount\<rparr>"
        from m stored have "m \<in> set (db_notifications w) \<or> m = created" by auto
        then show ?thesis
        proof
          assume "m \<in> set (db_notifications w)"
          then show ?thesis unfolding n by (intro disjI1 storedBefore_patched)
        next
          assume "m = created"
          with after show ?thesis unfolding n by (intro disjI2 scheduledAfterGuard_patched) simp
        qed
      next
        assume "n \<in> set (db_notifications w2)"
        then show ?thesis by (rule in_w2)
      qed
    qed
  qed
qed

text \<open>The recurrence step where the identifier drawn is unused.\<close>

lemma scheduleRecurringNotification_unused:
  assumes "recurringPattern r = Some pattern"
    and "idb_get (randomUUID env (uuidReads w)) (db_notifications w) = None"
  shows "\<exists>follow w'. scheduleRecurringNotification env r w = (Inr (Some follow), w')
           \<and> db_notifications w' = idb_insert follow (db_notifications w)
           \<and> scheduledTime follow = nextOccurrence env pattern (anchorTime r)
           \<and> createdAt follow = dateNow env (clockReads w)"
proof -
  obtain res w1 where sn:
    "scheduleNotification env (taskId r) (title r) (body r)
       (nextOccurrence env pattern (anchorTime r))
       \<lparr> opt_priority = priority r, opt_category = category r, opt_taskDueDate = taskDueDate r,
         opt_isRecurring = Some True, opt_recurringPattern = Some pattern \<rparr> w = (res, w1)"
    by (rule prod.exhaust)
  from sn assms(2) obtain follow where res: "res = Inr follow"
    by (cases res) (auto simp: scheduleNotification_cases Let_def)
  with sn have created:
    "scheduleNotification env (taskId r) (title r) (body r)
       (nextOccurrence env pattern (anchorTime r))
       \<lparr> opt_priority = priority r, opt_category = category r, opt_taskDueDate = taskDueDate r,
         opt_isRecurring = Some True, opt_recurringPattern = Some pattern \<rparr> w = (Inr follow, w1)"
    by simp
  note facts = scheduleNotification_Inr [OF created]
  from assms(1) created have "scheduleRecurringNotification env r w = (Inr (Some follow), w1)"
    by (simp add: scheduleRecurringNotification_def)
  with facts(2,5,18) show ?thesis by blast
qed

text \<open>
  Claim C2, as the code has it. A call of \<open>scheduleTaskReminder\<close> with a reminder time
  that is not after the current time returns and leaves the store as it was. Every record
  that \<open>scheduleTaskReminder\<close> adds, and every record that a snooze of a positive number of
  minutes adds, is scheduled after a reading of the clock (the reading of the guard, the
  reading the snooze time is computed from), and its creation time is the reading taken
  next; so it is scheduled after its creation time where the clock does not move from one
  reading to the next. The recurrence step compares nothing with the clock: with an unused
  identifier it adds one record, scheduled one interval after the anchor of the delivered
  record and created at the time of the call, which is scheduled after its creation time
  exactly when the call comes before that time.
\<close>

theorem scheduledTime_after_clock_reading:
  "(t \<le> dateNow env (clockReads w) \<longrightarrow>
      scheduleTaskReminder (Suc fuel) env taskId' taskTitle t rep iv options w
        = (Returned, w\<lparr>clockReads := Suc (clockReads w)\<rparr>))
   \<and> (\<forall>n \<in> set (db_notifications
                  (snd (scheduleTaskReminder fuel env taskId' taskTitle t rep iv options w))).
         n \<in> set (db_notifications w) \<or> scheduledAfterGuard env n)
   \<and> (0 < minutes \<longrightarrow>
        (\<forall>n \<in> set (db_notifications (snoozeNotification env taskId' minutes w)).
           storedBefore (db_notifications w) n \<or> scheduledAfterGuard env n))
   \<and> ((\<forall>k. dateNow env (Suc k) = dateNow env k) \<longrightarrow>
        (\<forall>n \<in> set (db_notifications
                   (snd (scheduleTaskReminder fuel env taskId' taskTitle t rep iv options w))).
           n \<in> set (db_notifications w) \<or> futureAtCreation n)
        \<and> (0 < minutes \<longrightarrow>
             (\<forall>n \<in> set (db_notifications (snoozeNotification env taskId' minutes w)).
                storedBefore (db_notifications w) n \<or> futureAtCreation n)))
   \<and> (recurringPattern r = Some pattern
        \<and> idb_get (randomUUID env (uuidReads w)) (db_notifications w) = None \<longrightarrow>
        (\<exists>follow w'. scheduleRecurringNotification env r w = (Inr (Some follow), w')
           \<and> db_notifications w' = idb_insert follow (db_notifications w)
           \<and> scheduledTime follow = nextOccurrence env pattern (anchorTime r)
           \<and> createdAt follow = dateNow env (clockReads w)
           \<and> (futureAtCreation follow
                \<longleftrightarrow> dateNow env (clockReads w) < nextOccurrence env pattern (anchorTime r))))"
proof -
  have rejects: "t \<le> dateNow env (clockReads w) \<longrightarrow>
      scheduleTaskReminder (Suc fuel) env taskId' taskTitle t rep iv options w
        = (Returned, w\<lparr>clockReads := Suc (clockReads w)\<rparr>)"
    by (intro impI) (rule scheduleTaskReminder_rejects)
  have reminder: "n \<in> set (db_notifications w) \<or> scheduledAfterGuard env n"
    if "n \<in> set (db_notifications
                 (snd (scheduleTaskReminder fuel env taskId' taskTitle t rep iv options w)))" for n
  proof -
    from that have "n \<in> set (db_notifications w)
        \<or> (derivedFromDueDate options n \<and> scheduledAfterGuard env n)"
      by (rule scheduleTaskReminder_created)
    then show ?thesis by (elim disjE conjE) simp_all
  qed
  have snooze: "storedBefore (db_notifications w) n \<or> scheduledAfterGuard env n"
    if "0 < minutes" "n \<in> set (db_notifications (snoozeNotification env taskId' minutes w))" for n
    using that by (rule snoozeNotification_created)
  have steady_reminder: "n \<in> set (db_notifications w) \<or> futureAtCreation n"
    if "\<forall>k. dateNow env (Suc k) = dateNow env k"
      "n \<in> set (db_notifications
                 (snd (scheduleTaskReminder fuel env taskId' taskTitle t rep iv options w)))" for n
    using reminder [OF that(2)] scheduledAfterGuard_steady [OF _ that(1)] by (elim disjE) simp_all
  have steady_snooze: "storedBefore (db_notifications w) n \<or> futureAtCreation n"
    if "\<forall>k. dateNow env (Suc k) = dateNow env k" "0 < minutes"
      "n \<in> set (db_notifications (snoozeNotification env taskId' minutes w))" for n
    using snooze [OF that(2,3)] scheduledAfterGuard_steady [OF _ that(1)] by (elim disjE) simp_all
  have recurrence: "\<exists>follow w'. scheduleRecurringNotification env r w = (Inr (Some follow), w')
           \<and> db_notifications w' = idb_insert follow (db_notifications w)
           \<and> scheduledTime follow = nextOccurrence env pattern (anchorTime r)
           \<and> createdAt follow = dateNow env (clockReads w)
           \<and> (futureAtCreation follow
                \<longleftrightarrow> dateNow env (clockReads w) < nextOccurrence env pattern (anchorTime r))"
    if "recurringPattern r = Some pattern"
      "idb_get (randomUUID env (uuidReads w)) (db_notifications w) = None"
  proof -
    from that obtain follow w' where
      run: "scheduleRecurringNotification env r w = (Inr (Some follow), w')"
      and store: "db_notifications w' = idb_insert follow (db_notifications w)"
      and time: "scheduledTime follow = nextOccurrence env pattern (anchorTime r)"
      and made: "createdAt follow = dateNow env (clockReads w)"
      using scheduleRecurringNotification_unused by blast
    from time made have "futureAtCreation follow
        \<longleftrightarrow> dateNow env (clockReads w) < nextOccurrence env pattern (anchorTime r)"
      by (simp add: futureAtCreation_def)
    with run store time made show ?thesis by (intro exI conjI)
  qed
  show ?thesis
  proof (intro conjI)
    show "t \<le> dateNow env (clockReads w) \<longrightarrow>
      scheduleTaskReminder (Suc fuel) env taskId' taskTitle t rep iv options w
        = (Returned, w\<lparr>clockReads := Suc (clockReads w)\<rparr>)"
      by (rule rejects)
    show "\<forall>n \<in> set (db_notifications
                  (snd (scheduleTaskReminder fuel env taskId' taskTitle t rep iv options w))).
         n \<in> set (db_notifications w) \<or> scheduledAfterGuard env n"
      by (intro ballI) (rule reminder)
    show "0 < minutes \<longrightarrow>
        (\<forall>n \<in> set (db_notifications (snoozeNotification env taskId' minutes w)).
           storedBefore (db_notifications w) n \<or> scheduledAfterGuard env n)"
      by (intro impI ballI) (rule snooze)
    show "(\<forall>k. dateNow env (Suc k) = dateNow env k) \<longrightarrow>
        (\<forall>n \<in> set (db_notifications
                   (snd (scheduleTaskReminder fuel env taskId' taskTitle t rep iv options w))).
           n \<in> set (db_notifications w) \<or> futureAtCreation n)
        \<and> (0 < minutes \<longrightarrow>
             (\<forall>n \<in> set (db_notifications (snoozeNotification env taskId' minutes w)).
                storedBefore (db_notifications w) n \<or> futureAtCreation n))"
    proof (intro impI conjI ballI)
      fix n
      assume "\<forall>k. dateNow env (Suc k) = dateNow env k"
        and "n \<in> set (db_notifications
                 (snd (scheduleTaskReminder fuel env taskId' taskTitle t rep iv options w)))"
      then show "n \<in> set (db_notifications w) \<or> futureAtCreation n"
        by (rule steady_reminder)
    next
      fix n
      assume "\<forall>k. dateNow env (Suc k) = dateNow env k" and "0 < minutes"
        and "n \<in> set (db_notifications (snoozeNotification env taskId' minutes w))"
      then show "storedBefore (db_notifications w) n \<or> futureAtCreation n"
        by (rule steady_snooze)
    qed
    show "recurringPattern r = Some pattern
        \<and> idb_get (randomUUID env (uuidReads w)) (db_notifications w) = None \<longrightarrow>
        (\<exists>follow w'. scheduleRecurringNotification env r w = (Inr (Some follow), w')
           \<and> db_notifications w' = idb_insert follow (db_notifications w)
           \<and> scheduledTime follow = nextOccurrence env pattern (anchorTime r)
           \<and> createdAt follow = dateNow env (clockReads w)
           \<and> (futureAtCreation follow
                \<longleftrightarrow> dateNow env (clockReads w) < nextOccurrence env pattern (anchorTime r)))"
    proof (intro impI)
      assume "recurringPattern r = Some pattern
        \<and> idb_get (randomUUID env (uuidReads w)) (db_notifications w) = None"
      then have "recurringPattern r = Some pattern"
        and "idb_get (randomUUID env (uuidReads w)) (db_notifications w) = None"
        by simp_all
      then show "\<exists>follow w'. scheduleRecurringNotification env r w = (Inr (Some follow), w')
           \<and> db_notifications w' = idb_insert follow (db_notifications w)
           \<and> scheduledTime follow = nextOccurrence env pattern (anchorTime r)
           \<and> createdAt follow = dateNow env (clockReads w)
           \<and> (futureAtCreation follow
                \<longleftrightarrow> dateNow env (clockReads w) < nextOccurrence env pattern (anchorTime r))"
        by (rule recurrence)
    qed
  qed
qed

theorem scheduledTime_after_clock_reading_witness:
  "500 \<le> dateNow (utcEnv 1000) (clockReads emptyWorld)
   \<and> scheduleTaskReminder (Suc 0) (utcEnv 1000) ''t1'' ''water'' 500 True (Some Daily)
         deadlineOptions emptyWorld
       = (Returned, emptyWorld\<lparr>clockReads := Suc (clockReads emptyWorld)\<rparr>)
   \<and> map scheduledTime (db_notifications
         (snd (scheduleTaskReminder 2 (utcEnv 1000) ''t1'' ''water'' 5000 True (Some Daily)
                 deadlineOptions emptyWorld))) = [5000, 86405000]
   \<and> list_all (scheduledAfterGuard (utcEnv 1000)) (db_notifications
         (snd (scheduleTaskReminder 2 (utcEnv 1000) ''t1'' ''water'' 5000 True (Some Daily)
                 deadlineOptions emptyWorld)))
   \<and> list_all futureAtCreation (db_notifications
         (snd (scheduleTaskReminder 2 (utcEnv 1000) ''t1'' ''water'' 5000 True (Some Daily)
                 deadlineOptions emptyWorld)))
   \<and> map scheduledTime (db_notifications (snoozeNotification (utcEnv 1000000) ''t1'' 10 taskWorld))
       = [1600000]
   \<and> list_all (scheduledAfterGuard (utcEnv 1000000))
       (db_notifications (snoozeNotification (utcEnv 1000000) ''t1'' 10 taskWorld))
   \<and> list_all futureAtCreation
       (db_notifications (snoozeNotification (utcEnv 1000000) ''t1'' 10 taskWorld))
   \<and> recurringPattern (hd (db_notifications (firstDaily 500 1000))) = Some Daily
   \<and> idb_get (randomUUID (utcEnv 2000) (uuidReads (firstDaily 500 1000)))
       (db_notifications (firstDaily 500 1000)) = None
   \<and> (\<exists>follow w'.
         scheduleRecurringNotification (utcEnv 2000) (hd (db_notifications (firstDaily 500 1000)))
           (firstDaily 500 1000) = (Inr (Some follow), w')
         \<and> scheduledTime follow = 86401000 \<and> createdAt follow = 2000
         \<and> futureAtCreation follow)"
proof -
  have past: "500 \<le> dateNow (utcEnv 1000) (clockReads emptyWorld)"
    by code_simp
  have times: "map scheduledTime (db_notifications
         (snd (scheduleTaskReminder 2 (utcEnv 1000) ''t1'' ''water'' 5000 True (Some Daily)
                 deadlineOptions emptyWorld))) = [5000, 86405000]"
    by code_simp
  have snoozed: "map scheduledTime
      (db_notifications (snoozeNotification (utcEnv 1000000) ''t1'' 10 taskWorld)) = [1600000]"
    by code_simp
  have empty: "set (db_notifications emptyWorld) = {}"
    by code_simp
  have no_record: "db_notifications taskWorld = []"
    by code_simp
  have steady: "\<forall>k. dateNow (utcEnv now) (Suc k) = dateNow (utcEnv now) k" for now
    by (simp add: utcEnv_def)
  have daily: "recurringPattern (hd (db_notifications (firstDaily 500 1000))) = Some Daily"
    by code_simp
  have unused: "idb_get (randomUUID (utcEnv 2000) (uuidReads (firstDaily 500 1000)))
       (db_notifications (firstDaily 500 1000)) = None"
    by code_simp
  have next_time: "nextOccurrence (utcEnv 2000) Daily
      (anchorTime (hd (db_notifications (firstDaily 500 1000)))) = 86401000"
    by code_simp
  have reading: "dateNow (utcEnv 2000) (clockReads (firstDaily 500 1000)) = 2000"
    by code_simp
  note reminder_rejected = scheduledTime_after_clock_reading
    [where t = 500 and env = "utcEnv 1000" and w = emptyWorld and fuel = 0 and taskId' = "''t1''"
       and taskTitle = "''water''" and rep = True and iv = "Some Daily"
       and options = deadlineOptions, THEN conjunct1, rule_format, OF past]
  note reminder = scheduledTime_after_clock_reading
    [where t = 5000 and env = "utcEnv 1000" and w = emptyWorld and fuel = 2 and taskId' = "''t1''"
       and taskTitle = "''water''" and rep = True and iv = "Some Daily"
       and options = deadlineOptions]
  note snooze = scheduledTime_after_clock_reading
    [where env = "utcEnv 1000000" and w = taskWorld and taskId' = "''t1''" and minutes = 10]
  note recurrence = scheduledTime_after_clock_reading
    [where env = "utcEnv 2000" and w = "firstDaily 500 1000"
       and r = "hd (db_notifications (firstDaily 500 1000))" and pattern = Daily,
     THEN conjunct2, THEN conjunct2, THEN conjunct2, THEN conjunct2, rule_format,
     OF conjI, OF daily unused]
  have reminder_after: "list_all (scheduledAfterGuard (utcEnv 1000)) (db_notifications
         (snd (scheduleTaskReminder 2 (utcEnv 1000) ''t1'' ''water'' 5000 True (Some Daily)
                 deadlineOptions emptyWorld)))"
    using reminder [THEN conjunct2, THEN conjunct1] empty
    by (simp add: list_all_iff)
  have reminder_future: "list_all futureAtCreation (db_notifications
         (snd (scheduleTaskReminder 2 (utcEnv 1000) ''t1'' ''water'' 5000 True (Some Daily)
                 deadlineOptions emptyWorld)))"
    using reminder [THEN conjunct2, THEN conjunct2, THEN conjunct2, THEN conjunct1,
                    THEN mp, OF steady, THEN conjunct1] empty
    by (simp add: list_all_iff)
  have ten: "(0::int) < 10"
    by simp
  have snooze_after: "list_all (scheduledAfterGuard (utcEnv 1000000))
       (db_notifications (snoozeNotification (utcEnv 1000000) ''t1'' 10 taskWorld))"
    using snooze [THEN conjunct2, THEN conjunct2, THEN conjunct1, rule_format, OF ten]
    by (simp add: list_all_iff no_record storedBefore_def)
  have snooze_future: "list_all futureAtCreation
       (db_notifications (snoozeNotification (utcEnv 1000000) ''t1'' 10 taskWorld))"
    using snooze [THEN conjunct2, THEN conjunct2, THEN conjunct2, THEN conjunct1,
                  THEN mp, OF steady, THEN conjunct2, rule_format, OF ten]
    by (simp add: list_all_iff no_record storedBefore_def)
  from recurrence obtain follow w' where
    run: "scheduleRecurringNotification (utcEnv 2000) (hd (db_notifications (firstDaily 500 1000)))
           (firstDaily 500 1000) = (Inr (Some follow), w')"
    and time: "scheduledTime follow = nextOccurrence (utcEnv 2000) Daily
                 (anchorTime (hd (db_notifications (firstDaily 500 1000))))"
    and made: "createdAt follow = dateNow (utcEnv 2000) (clockReads (firstDaily 500 1000))"
    and future: "futureAtCreation follow
       \<longleftrightarrow> dateNow (utcEnv 2000) (clockReads (firstDaily 500 1000))
           < nextOccurrence (utcEnv 2000) Daily
               (anchorTime (hd (db_notifications (firstDaily 500 1000))))"
    by (elim exE conjE)
  from time [unfolded next_time] made [unfolded reading] future [unfolded next_time reading]
  have "scheduledTime follow = 86401000" "createdAt follow = 2000" "futureAtCreation follow"
    by simp_all
  with run have followed: "\<exists>follow w'.
         scheduleRecurringNotification (utcEnv 2000) (hd (db_notifications (firstDaily 500 1000)))
           (firstDaily 500 1000) = (Inr (Some follow), w')
         \<and> scheduledTime follow = 86401000 \<and> createdAt follow = 2000
         \<and> futureAtCreation follow"
    by (intro exI conjI)
  from past reminder_rejected times reminder_after reminder_future snoozed snooze_after
    snooze_future daily unused followed
  show ?thesis
    by (intro conjI)
qed

text \<open>
  The claim as stated fails in three ways. On the recurrence path: a daily notification
  for the time 1000 that is delivered at 200000000, more than a day late, gets a follow-up
  for 86401000 that is created at 200000000. In \<open>scheduleTaskReminder\<close>, where the clock
  moves between the guard and the creation: the guard reads 1000 and lets a reminder for
  1002 through, and the record is created at 1005. On the snooze path with 0 minutes: the
  record is scheduled for its creation time.
\<close>

theorem scheduledTime_not_after_createdAt_counterexample:
  "map scheduledTime (db_notifications
       (checkAndTriggerNotifications (utcEnv 200000000) (firstDaily 500 1000))) = [1000, 86401000]
   \<and> map createdAt (db_notifications
       (checkAndTriggerNotifications (utcEnv 200000000) (firstDaily 500 1000))) = [500, 200000000]
   \<and> \<not> list_all futureAtCreation (db_notifications
       (checkAndTriggerNotifications (utcEnv 200000000) (firstDaily 500 1000)))
   \<and> map scheduledTime (db_notifications
       (snd (scheduleTaskReminder 1 (tickingEnv 1000 5) ''t1'' ''water'' 1002 False None
               deadlineOptions emptyWorld))) = [1002]
   \<and> map createdAt (db_notifications
       (snd (scheduleTaskReminder 1 (tickingEnv 1000 5) ''t1'' ''water'' 1002 False None
               deadlineOptions emptyWorld))) = [1005]
   \<and> \<not> list_all futureAtCreation (db_notifications
       (snd (scheduleTaskReminder 1 (tickingEnv 1000 5) ''t1'' ''water'' 1002 False None
               deadlineOptions emptyWorld)))
   \<and> map scheduledTime (db_notifications (snoozeNotification (utcEnv 2000000) ''t1'' 0 taskWorld))
       = [2000000]
   \<and> map createdAt (db_notifications (snoozeNotification (utcEnv 2000000) ''t1'' 0 taskWorld))
       = [2000000]
   \<and> \<not> list_all futureAtCreation
         (db_notifications (snoozeNotification (utcEnv 2000000) ''t1'' 0 taskWorld))"
  by code_simp

end
